theory Spec2Isabelle
  imports Main "HOL-Library.Word" "HOL-Library.Signed_Division"
begin

section \<open>Shared data\<close>

text \<open>
  Go \<open>error\<close> values, one constructor per way the two source files build one.
  \<^item> \<open>ErrorsNew s\<close>: \<open>errors.New(s)\<close>;
  \<^item> \<open>EOF\<close>: \<open>io.EOF\<close>;
  \<^item> \<open>External s\<close>: an error handed back by a collaborator (process, pipe, JSON decoder);
  \<^item> \<open>Timeout id\<close>: \<open>fmt.Errorf("timeout waiting for message from %s", id)\<close>;
  \<^item> \<open>Calling cmd e\<close>: \<open>fmt.Errorf("calling <cmd>: %w", e)\<close>;
  \<^item> \<open>EventOutOfSync expected received\<close>: \<open>"event out of sync, expected '..', received '..'"\<close>;
  \<^item> \<open>CommandFailed msg\<close>: \<open>"command failed: <msg>"\<close>;
  \<^item> \<open>CommunicationOutOfSync received\<close>: \<open>"communication out of sync, expected 'OK', received '..'"\<close>;
  \<^item> \<open>ProtocolNotSupported v\<close>: \<open>"protocol version not supported: requested 1, got <v>"\<close>.
\<close>

datatype error =
    ErrorsNew string
  | EOF
  | External string
  | Timeout string
  | Calling string error
  | EventOutOfSync string string
  | CommandFailed string
  | CommunicationOutOfSync string
  | ProtocolNotSupported int

text \<open>
  Modelled from the spec: the \<open>Port\<close> struct is declared in a file of the repository that
  is not among the sources read here. Section 3 of the specification gives its fields:
  address, addressLabel, protocol, protocolLabel and properties (a string-to-string
  mapping). \<open>Properties\<close> is a pointer in the source (\<open>CreateDummyPort\<close> fills it, the port
  of a "remove" event leaves it nil), hence the option.
\<close>

record Port =
  Address :: string
  AddressLabel :: string
  Protocol :: string
  ProtocolLabel :: string
  Properties :: "(string \<rightharpoonup> string) option"

section \<open>The dummy discovery (dummy-discovery/main.go)\<close>

text \<open>
  Go's \<open>int\<close> is taken at 64 bits. \<open>startSyncCount\<close> and \<open>dummyCounter\<close> are words, so
  \<open>++\<close> and \<open>*\<close> wrap; \<open>%\<close> is Go's truncated remainder on the signed reading.
  Channels of the discovery are named by a handle (a natural number).
\<close>

record DummyDiscovery =
  startSyncCount :: "64 word"
  closeChan :: "nat option"

text \<open>\<open>fmt.Sprintf("%d", n)\<close>: the decimal digits, with a minus sign for negatives.\<close>

function showNat :: "nat \<Rightarrow> string" where
  "showNat n = (if n < 10 then [''0123456789'' ! n]
                else showNat (n div 10) @ [''0123456789'' ! (n mod 10)])"
  by pat_completeness auto
termination
  by (relation "measure id") auto

definition Sprintf_d :: "int \<Rightarrow> string" where
  "Sprintf_d i = (if i < 0 then CHR ''-'' # showNat (nat (- i)) else showNat (nat i))"

text \<open>\<open>CreateDummyPort\<close> bumps the global \<open>dummyCounter\<close> and builds a port from it.\<close>

definition CreateDummyPort :: "64 word \<Rightarrow> Port \<times> 64 word" where
  "CreateDummyPort dummyCounter =
     (let dummyCounter = dummyCounter + 1 in
      (\<lparr> Address = Sprintf_d (sint dummyCounter),
         AddressLabel = ''Dummy upload port'',
         Protocol = ''dummy'',
         ProtocolLabel = ''Dummy protocol'',
         Properties = Some [''vid'' \<mapsto> ''0x2341'', ''pid'' \<mapsto> ''0x0041'',
                            ''mac'' \<mapsto> Sprintf_d (sint (dummyCounter * 384782))] \<rparr>,
       dummyCounter))"

text \<open>
  What the emitter goroutine hands to the server: a call of \<open>eventCB\<close> or of \<open>errorCB\<close>.
  Each \<open>select\<close> of the goroutine ends in one of its two cases; which one is the
  environment's choice, given as a function of the number of selects executed before.
\<close>

datatype callback = EventCB string Port | ErrorCB string

datatype selected = CloseChan | After

text \<open>
  The \<open>for count < 2\<close> loop. The result says whether the goroutine returned from inside
  the loop (a receive on \<open>closeChan\<close>), what it emitted, and the port counter.
\<close>

function emitLoop ::
  "(nat \<Rightarrow> selected) \<Rightarrow> nat \<Rightarrow> int \<Rightarrow> 64 word \<Rightarrow> callback list \<Rightarrow> bool \<times> callback list \<times> 64 word"
where
  "emitLoop sel k count dummyCounter out =
     (if count < 2 then
        (let count = count + 1 in
         case sel k of
           CloseChan \<Rightarrow> (True, out, dummyCounter)
         | After \<Rightarrow>
            (let (port, dummyCounter) = CreateDummyPort dummyCounter;
                 out = out @ [EventCB ''add'' port] in
             case sel (k + 1) of
               CloseChan \<Rightarrow> (True, out, dummyCounter)
             | After \<Rightarrow>
                 emitLoop sel (k + 2) count dummyCounter
                   (out @ [EventCB ''remove''
                             \<lparr> Address = Address port, AddressLabel = '''',
                               Protocol = Protocol port, ProtocolLabel = '''',
                               Properties = None \<rparr>])))
      else (False, out, dummyCounter))"
  by pat_completeness auto
termination
  by (relation "measure (\<lambda>(sel, k, count, dummyCounter, out). nat (2 - count))") auto

text \<open>
  The goroutine started by \<open>StartSync\<close>: two initial "add" events, the loop, then the
  error callback; the final receive on \<open>closeChan\<close> emits nothing.
\<close>

definition emitter :: "(nat \<Rightarrow> selected) \<Rightarrow> 64 word \<Rightarrow> callback list \<times> 64 word" where
  "emitter sel dummyCounter =
     (let (p1, dummyCounter) = CreateDummyPort dummyCounter;
          (p2, dummyCounter) = CreateDummyPort dummyCounter;
          (returned, out, dummyCounter) =
             emitLoop sel 0 0 dummyCounter [EventCB ''add'' p1, EventCB ''add'' p2] in
      if returned then (out, dummyCounter)
      else (out @ [ErrorCB ''unrecoverable error, cannot send more events''], dummyCounter))"

text \<open>
  \<open>(d *DummyDiscovery) StartSync\<close>. \<open>c\<close> is the channel that \<open>make(chan bool)\<close> returns.
  The third component is the channel of the emitter goroutine that was started, or
  \<open>None\<close> when none was.
\<close>

definition Dummy_StartSync ::
  "nat \<Rightarrow> DummyDiscovery \<Rightarrow> error option \<times> DummyDiscovery \<times> nat option" where
  "Dummy_StartSync c d =
     (let d = d\<lparr>startSyncCount := startSyncCount d + 1\<rparr> in
      if sint (startSyncCount d) smod 5 = 0
      then (Some (ErrorsNew ''could not start_sync every 5 times''), d, None)
      else (None, d\<lparr>closeChan := Some c\<rparr>, Some c))"

text \<open>
  \<open>(d *DummyDiscovery) Stop\<close>: signals the emitter, if one is registered. The boolean
  says whether \<open>true\<close> was sent on the registered channel.
\<close>

definition Dummy_Stop :: "DummyDiscovery \<Rightarrow> error option \<times> DummyDiscovery \<times> bool" where
  "Dummy_Stop d =
     (case closeChan d of
        Some c \<Rightarrow> (None, d\<lparr>closeChan := None\<rparr>, True)
      | None \<Rightarrow> (None, d, False))"

text \<open>
  The discovery after \<open>n\<close> calls of \<open>StartSync\<close> on \<open>d\<close>; the \<open>k\<close>-th call gets channel
  \<open>k\<close> from \<open>make\<close>.
\<close>

primrec startSyncs :: "nat \<Rightarrow> DummyDiscovery \<Rightarrow> DummyDiscovery" where
  "startSyncs 0 d = d"
| "startSyncs (Suc n) d = fst (snd (Dummy_StartSync (Suc n) (startSyncs n d)))"

text \<open>\<open>dummyDiscovery := &DummyDiscovery{}\<close> in \<open>main\<close>.\<close>

definition newDummyDiscovery :: DummyDiscovery where
  "newDummyDiscovery = \<lparr> startSyncCount = 0, closeChan = None \<rparr>"

text \<open>
  A trace of callbacks in which every "remove" event comes directly after an "add"
  event for the same address and protocol.
\<close>

fun removesFollowAdds :: "callback list \<Rightarrow> bool" where
  "removesFollowAdds (EventCB t p # EventCB t' p' # cs) =
     ((t' = ''remove'' \<longrightarrow> t = ''add'' \<and> Address p = Address p' \<and> Protocol p = Protocol p')
      \<and> removesFollowAdds (EventCB t' p' # cs))"
| "removesFollowAdds (ErrorCB s # EventCB t' p' # cs) =
     (t' \<noteq> ''remove'' \<and> removesFollowAdds (EventCB t' p' # cs))"
| "removesFollowAdds (c # ErrorCB s # cs) = removesFollowAdds (ErrorCB s # cs)"
| "removesFollowAdds [c] = True"
| "removesFollowAdds [] = True"

section \<open>The discovery client (client.go)\<close>

subsection \<open>Data\<close>

text \<open>The states of a client (\<open>Alive\<close> to \<open>Dead\<close> are the integers 0 to 4 in the source).\<close>

datatype State = Alive | Idling | Running | Syncing | Dead

text \<open>
  The wire envelope. \<open>Ports\<close> is a slice of pointers and \<open>Port\<close> a pointer: a nil slice
  and a nil pointer are \<open>None\<close>.
\<close>

record discoveryMessage =
  EventType :: string
  Message :: string
  Error :: bool
  ProtocolVersion :: int
  Ports :: "Port option list option"
  Port :: "Port option"

text \<open>An event, built positionally in the source: type, port, discovery identifier.\<close>

datatype Event = Event (Type: string) (Port: "Port option") (DiscoveryID: string)

text \<open>
  What a call does besides returning: it may block for ever on a channel or on the
  mutex unless another party acts (\<open>Blocked\<close>), loop for ever (\<open>Diverges\<close>) or panic.
\<close>

datatype 'a exec = Done 'a | Blocked | Diverges | Panic string

primrec thenDo :: "'a exec \<Rightarrow> ('a \<Rightarrow> 'b exec) \<Rightarrow> 'b exec" where
  "thenDo (Done x) f = f x"
| "thenDo Blocked f = Blocked"
| "thenDo Diverges f = Diverges"
| "thenDo (Panic s) f = Panic s"

text \<open>
  The command-response channel between the decode loop and \<open>waitMessage\<close> is unbuffered:
  a message the loop is sending stays \<open>offered\<close>, and the loop stays in its send, until a
  receiver takes it.
\<close>

record MessageChan =
  offered :: "discoveryMessage option"
  mclosed :: bool

text \<open>
  An event channel. \<open>sent\<close> is everything sent on it so far, in order. \<open>room\<close> is the
  number of further sends that complete at once: the free slots of the buffer plus the
  receives the consumer has posted. A send with no room blocks.
\<close>

record EventChan =
  sent :: "Event list"
  room :: nat
  closed :: bool

text \<open>
  The standard input of the subprocess, an \<open>io.Writer\<close>. \<open>Write p k data\<close> is what the
  \<open>k\<close>-th call of \<open>Write\<close> returns for \<open>data\<close>: the number of bytes taken and an error or
  nil. \<open>received\<close> is what the subprocess has been sent.
\<close>

record Writer =
  Write :: "nat \<Rightarrow> string \<Rightarrow> int \<times> error option"
  calls :: nat
  received :: string

text \<open>
  Modelled from the spec: the process handle (\<open>paths.Process\<close>) is a collaborator outside
  the sources read here; section 6 of the specification gives its interface: a handle
  with a writable input stream, a readable output stream, \<open>kill()\<close> and \<open>wait()\<close>. The
  fields say what each call on the handle returns (\<open>kill\<close> and \<open>wait\<close> as functions of the
  number of earlier calls) and count the calls made.
\<close>

record Process =
  stdoutPipe :: "error option"
  stdinPipe :: "error + Writer"
  start :: "error option"
  kill :: "nat \<Rightarrow> error option"
  wait :: "nat \<Rightarrow> error option"
  killCalls :: nat
  waitCalls :: nat

text \<open>What one call of \<open>decoder.Decode\<close> yields: a message, \<open>io.EOF\<close>, or another error.\<close>

datatype decoded = Value discoveryMessage | EndOfStream | Malformed error

text \<open>Who holds \<open>statusMutex\<close>: nobody, the caller of a command, or the decode loop.\<close>

datatype holder = Free | Caller | Loop

text \<open>
  The \<open>Client\<close> struct. Channels are handles into the stores of the \<open>world\<close> below. The
  logger is left out: logging changes nothing that is modelled.
\<close>

record Client =
  id' :: string
  processArgs :: "string list"
  process :: "Process option"
  outgoingCommandsPipe :: "Writer option"
  incomingMessagesChan :: "nat option"
  userAgent :: string
  statusMutex :: holder
  incomingMessagesError :: "error option"
  state :: State
  eventChan :: "nat option"

text \<open>
  The client together with the channels it refers to and \<open>stdout\<close>, the values that the
  subprocess has written and the decoder has not returned yet.
\<close>

record world = Client +
  messageChans :: "MessageChan list"
  eventChans :: "EventChan list"
  stdout :: "decoded list"

definition chanAt :: "'a list \<Rightarrow> nat \<Rightarrow> 'a option" where
  "chanAt cs h = (if h < length cs then Some (cs ! h) else None)"

subsection \<open>Channel operations\<close>

text \<open>\<open>ch <- ev\<close> on an event channel.\<close>

definition chanSend :: "nat \<Rightarrow> Event \<Rightarrow> world \<Rightarrow> world exec" where
  "chanSend h ev w =
     (case chanAt (eventChans w) h of
        None \<Rightarrow> Panic ''invalid channel''
      | Some c \<Rightarrow>
          if closed c then Panic ''send on closed channel''
          else if room c = 0 then Blocked
          else Done (w\<lparr>eventChans := (eventChans w)[h := c\<lparr>sent := sent c @ [ev], room := room c - 1\<rparr>]\<rparr>))"

text \<open>\<open>close(ch)\<close> on an event channel.\<close>

definition chanClose :: "nat \<Rightarrow> world \<Rightarrow> world exec" where
  "chanClose h w =
     (case chanAt (eventChans w) h of
        None \<Rightarrow> Panic ''invalid channel''
      | Some c \<Rightarrow>
          if closed c then Panic ''close of closed channel''
          else Done (w\<lparr>eventChans := (eventChans w)[h := c\<lparr>closed := True\<rparr>]\<rparr>))"

text \<open>The consumer of an event channel posts one receive.\<close>

definition consumerReceive :: "nat \<Rightarrow> world \<Rightarrow> world" where
  "consumerReceive h w =
     (case chanAt (eventChans w) h of
        None \<Rightarrow> w
      | Some c \<Rightarrow> w\<lparr>eventChans := (eventChans w)[h := c\<lparr>room := room c + 1\<rparr>]\<rparr>)"

text \<open>\<open>statusMutex.Lock()\<close> and \<open>Unlock()\<close> as called by a command.\<close>

definition Lock :: "world \<Rightarrow> world exec" where
  "Lock w = (if statusMutex w = Free then Done (w\<lparr>statusMutex := Caller\<rparr>) else Blocked)"

definition Unlock :: "world \<Rightarrow> world" where
  "Unlock w = w\<lparr>statusMutex := Free\<rparr>"

subsection \<open>Construction\<close>

definition NewClient :: "string \<Rightarrow> string list \<Rightarrow> world" where
  "NewClient ident args =
     \<lparr> id' = ident, processArgs = args, process = None, outgoingCommandsPipe = None,
       incomingMessagesChan = None, userAgent = ''pluggable-discovery-protocol-handler'',
       statusMutex = Free, incomingMessagesError = None, state = Dead, eventChan = None,
       messageChans = [], eventChans = [], stdout = [] \<rparr>"

definition SetUserAgent :: "string \<Rightarrow> world \<Rightarrow> world" where
  "SetUserAgent ua w = w\<lparr>userAgent := ua\<rparr>"

definition GetID :: "world \<Rightarrow> string" where
  "GetID w = id' w"

subsection \<open>The decode loop\<close>

text \<open>\<open>close(outChan)\<close> on a command-response channel.\<close>

definition closeOut :: "nat \<Rightarrow> world \<Rightarrow> world" where
  "closeOut outChan w =
     (case chanAt (messageChans w) outChan of
        None \<Rightarrow> w
      | Some c \<Rightarrow> w\<lparr>messageChans := (messageChans w)[outChan := c\<lparr>mclosed := True\<rparr>]\<rparr>)"

text \<open>
  The end of the loop, on \<open>io.EOF\<close> and in \<open>closeAndReportError\<close> alike: under the mutex
  the state becomes \<open>Dead\<close> and the error is recorded, then the channel is closed.
\<close>

definition closeAndReportError :: "nat \<Rightarrow> error \<Rightarrow> world \<Rightarrow> world" where
  "closeAndReportError outChan err w =
     closeOut outChan (w\<lparr>state := Dead, incomingMessagesError := Some err\<rparr>)"

text \<open>\<open>outChan <- &msg\<close>: the message is offered to the next receiver.\<close>

definition offer :: "nat \<Rightarrow> discoveryMessage \<Rightarrow> world \<Rightarrow> world" where
  "offer outChan msg w =
     (case chanAt (messageChans w) outChan of
        None \<Rightarrow> w
      | Some c \<Rightarrow> w\<lparr>messageChans := (messageChans w)[outChan := c\<lparr>offered := Some msg\<rparr>]\<rparr>)"

text \<open>
  One pass through the body of the \<open>for\<close> loop ends in one of four ways: the loop goes
  on to the next value (\<open>Next\<close>), it cannot complete the pass yet and will take the
  same value up again (\<open>Stay\<close>), it returns (\<open>Return\<close>), or it panics (\<open>Fault\<close>).
\<close>

datatype step = Next world | Stay world | Return world | Fault string

text \<open>
  The end of the loop under the mutex. The loop waits while the caller of a command
  holds the mutex.
\<close>

definition endLoop :: "nat \<Rightarrow> error \<Rightarrow> world \<Rightarrow> step" where
  "endLoop outChan err w =
     (if statusMutex w = Caller then Stay w
      else Return (closeAndReportError outChan err w))"

text \<open>
  The section \<open>Lock(); if disc.eventChan != nil { disc.eventChan <- ev }; Unlock()\<close>.
  When the channel has no room the loop stays in the send and keeps the mutex.
\<close>

definition lockedSend :: "Event \<Rightarrow> world \<Rightarrow> step" where
  "lockedSend ev w =
     (if statusMutex w = Caller then Stay w
      else
        (case eventChan w of
           None \<Rightarrow> Next (w\<lparr>statusMutex := Free\<rparr>)
         | Some h \<Rightarrow>
             (case chanSend h ev w of
                Done w' \<Rightarrow> Next (w'\<lparr>statusMutex := Free\<rparr>)
              | Blocked \<Rightarrow> Stay (w\<lparr>statusMutex := Loop\<rparr>)
              | Diverges \<Rightarrow> Fault ''''
              | Panic s \<Rightarrow> Fault s)))"

text \<open>The body of the loop for the value \<open>d\<close> that \<open>Decode\<close> returned.\<close>

definition iteration :: "decoded \<Rightarrow> nat \<Rightarrow> world \<Rightarrow> step" where
  "iteration d outChan w =
     (case d of
        EndOfStream \<Rightarrow> endLoop outChan EOF w
      | Malformed err \<Rightarrow> endLoop outChan err w
      | Value msg \<Rightarrow>
          if EventType msg = ''add'' then
            (case discoveryMessage.Port msg of
               None \<Rightarrow> endLoop outChan (ErrorsNew ''invalid 'add' message: missing port'') w
             | Some p \<Rightarrow> lockedSend (Event ''add'' (Some p) (GetID w)) w)
          else if EventType msg = ''remove'' then
            (case discoveryMessage.Port msg of
               None \<Rightarrow> endLoop outChan (ErrorsNew ''invalid 'remove' message: missing port'') w
             | Some p \<Rightarrow> lockedSend (Event ''remove'' (Some p) (GetID w)) w)
          else Next (offer outChan msg w))"

text \<open>
  \<open>jsonDecodeLoop\<close>, run on the values its decoder is going to return. It stops when the
  input is used up (the loop waits in \<open>Decode\<close>), when it has returned (its channel is
  closed), while the message it sent last has not been received, and when a pass
  cannot be completed. The result is the input not consumed and the new world.
\<close>

fun jsonDecodeLoop :: "decoded list \<Rightarrow> nat \<Rightarrow> world \<Rightarrow> (decoded list \<times> world) exec" where
  "jsonDecodeLoop [] outChan w = Done ([], w)"
| "jsonDecodeLoop (d # ds) outChan w =
     (case chanAt (messageChans w) outChan of
        None \<Rightarrow> Panic ''invalid channel''
      | Some c \<Rightarrow>
          if mclosed c \<or> offered c \<noteq> None then Done (d # ds, w)
          else
            (case iteration d outChan w of
               Next w' \<Rightarrow> jsonDecodeLoop ds outChan w'
             | Stay w' \<Rightarrow> Done (d # ds, w')
             | Return w' \<Rightarrow> Done (ds, w')
             | Fault s \<Rightarrow> Panic s))"

text \<open>
  The decode loop of the running subprocess is given what the subprocess writes
  (\<open>ins\<close>, after what is still unread) and runs as far as it can.
\<close>

definition runDecodeLoop :: "decoded list \<Rightarrow> world \<Rightarrow> world exec" where
  "runDecodeLoop ins w =
     (case incomingMessagesChan w of
        None \<Rightarrow> Done (w\<lparr>stdout := stdout w @ ins\<rparr>)
      | Some outChan \<Rightarrow>
          thenDo (jsonDecodeLoop (stdout w @ ins) outChan w)
            (\<lambda>(rest, w). Done (w\<lparr>stdout := rest\<rparr>)))"

subsection \<open>Waiting and sending\<close>

text \<open>
  The \<open>select\<close> of \<open>waitMessage\<close>. While the caller waits the decode loop runs on \<open>ins\<close>,
  what the subprocess writes before the timer fires. The select then receives the
  offered message; on a closed channel it receives nil; with neither (also on a nil
  channel) the timer fires.
\<close>

datatype selection = Received discoveryMessage | ReceivedNil | TimerFired

definition selectMessage :: "decoded list \<Rightarrow> world \<Rightarrow> (selection \<times> world) exec" where
  "selectMessage ins w =
     thenDo (runDecodeLoop ins w) (\<lambda>w.
       case incomingMessagesChan w of
         None \<Rightarrow> Done (TimerFired, w)
       | Some h \<Rightarrow>
           (case chanAt (messageChans w) h of
              None \<Rightarrow> Panic ''invalid channel''
            | Some c \<Rightarrow>
                (case offered c of
                   Some msg \<Rightarrow>
                     Done (Received msg,
                           w\<lparr>messageChans := (messageChans w)[h := c\<lparr>offered := None\<rparr>]\<rparr>)
                 | None \<Rightarrow>
                     if mclosed c then Done (ReceivedNil, w) else Done (TimerFired, w))))"

definition waitMessage ::
  "decoded list \<Rightarrow> world \<Rightarrow> ((discoveryMessage option \<times> error option) \<times> world) exec" where
  "waitMessage ins w =
     thenDo (selectMessage ins w) (\<lambda>(s, w).
       case s of
         Received msg \<Rightarrow> Done ((Some msg, None), w)
       | ReceivedNil \<Rightarrow> Done ((None, incomingMessagesError w), w)
       | TimerFired \<Rightarrow> Done ((None, Some (Timeout (id' w))), w))"

text \<open>
  The loop of \<open>sendCommand\<close> over the bytes still to write. A writer that keeps taking
  fewer bytes than given without an error keeps the loop running: the value is then
  \<open>None\<close>. \<open>data[n:]\<close> panics when \<open>n\<close> is out of range.
\<close>

partial_function (option) sendData ::
  "string \<Rightarrow> Writer \<Rightarrow> (error option \<times> Writer) exec option" where
  "sendData data pipe =
     (case Write pipe (calls pipe) data of
        (n, err) \<Rightarrow>
          (let pipe' = pipe\<lparr>calls := calls pipe + 1,
                             received := received pipe @ take (nat n) data\<rparr> in
           case err of
             Some e \<Rightarrow> Some (Done (Some e, pipe'))
           | None \<Rightarrow>
               if n = int (length data) then Some (Done (None, pipe'))
               else if n < 0 \<or> int (length data) < n
                 then Some (Panic ''slice bounds out of range'')
               else sendData (drop (nat n) data) pipe'))"

declare sendData.simps [code]

definition sendCommand :: "string \<Rightarrow> world \<Rightarrow> (error option \<times> world) exec" where
  "sendCommand command w =
     (case outgoingCommandsPipe w of
        None \<Rightarrow> Panic ''nil pointer dereference''
      | Some pipe \<Rightarrow>
          (case sendData command pipe of
             None \<Rightarrow> Diverges
           | Some r \<Rightarrow>
               thenDo r (\<lambda>(err, pipe'). Done (err, w\<lparr>outgoingCommandsPipe := Some pipe'\<rparr>))))"

subsection \<open>Process lifecycle\<close>

text \<open>
  \<open>runProcess\<close>. \<open>NewProcess\<close> is the collaborator \<open>paths.NewProcess\<close>: an error or a
  handle. The new command-response channel is a fresh handle, and the decode loop
  started on it reads a new, empty output stream.
\<close>

definition runProcess ::
  "(string list \<Rightarrow> error + Process) \<Rightarrow> world \<Rightarrow> (error option \<times> world) exec" where
  "runProcess NewProcess w =
     (case NewProcess (processArgs w) of
        Inl err \<Rightarrow> Done (Some err, w)
      | Inr proc \<Rightarrow>
          (case stdoutPipe proc of
             Some err \<Rightarrow> Done (Some err, w)
           | None \<Rightarrow>
               (case stdinPipe proc of
                  Inl err \<Rightarrow> Done (Some err, w)
                | Inr stdin \<Rightarrow>
                    (let w = w\<lparr>outgoingCommandsPipe := Some stdin\<rparr>;
                         messageChan = length (messageChans w);
                         w = w\<lparr>messageChans :=
                                 messageChans w @ [\<lparr>offered = None, mclosed = False\<rparr>],
                               incomingMessagesChan := Some messageChan,
                               stdout := []\<rparr> in
                     case start proc of
                       Some err \<Rightarrow> Done (Some err, w)
                     | None \<Rightarrow>
                         thenDo (Lock w) (\<lambda>w.
                           Done (None, Unlock (w\<lparr>process := Some proc, state := Alive\<rparr>)))))))"

text \<open>\<open>stopSync\<close>: the flush of the event channel.\<close>

definition stopSync :: "world \<Rightarrow> world exec" where
  "stopSync w =
     (case eventChan w of
        None \<Rightarrow> Done w
      | Some h \<Rightarrow>
          thenDo (chanSend h (Event ''stop'' None (GetID w)) w) (\<lambda>w.
          thenDo (chanClose h w) (\<lambda>w.
            Done (w\<lparr>eventChan := None\<rparr>))))"

text \<open>The part of \<open>killProcess\<close> after the process has been dealt with.\<close>

definition killProcessLocked :: "world \<Rightarrow> (error option \<times> world) exec" where
  "killProcessLocked w =
     thenDo (Lock w) (\<lambda>w.
     thenDo (stopSync w) (\<lambda>w.
       Done (None, Unlock (w\<lparr>state := Dead\<rparr>))))"

definition killProcess :: "world \<Rightarrow> (error option \<times> world) exec" where
  "killProcess w =
     (case process w of
        None \<Rightarrow> killProcessLocked w
      | Some proc \<Rightarrow>
          (let killed = proc\<lparr>killCalls := killCalls proc + 1\<rparr> in
           case kill proc (killCalls proc) of
             Some err \<Rightarrow> Done (Some err, w\<lparr>process := Some killed\<rparr>)
           | None \<Rightarrow>
               (let waited = killed\<lparr>waitCalls := waitCalls killed + 1\<rparr> in
                case wait proc (waitCalls proc) of
                  Some err \<Rightarrow> Done (Some err, w\<lparr>process := Some waited\<rparr>)
                | None \<Rightarrow> killProcessLocked (w\<lparr>process := Some waited\<rparr>))))"

subsection \<open>Commands\<close>

text \<open>
  \<open>strings.ToUpper\<close> on the bytes of a string: ASCII letters are mapped to upper case.
  Outside ASCII the source maps runes to runes; no rune other than the letters o and k
  has O or K as its upper case, so the comparison with "OK" below is decided alike.
\<close>

definition ToUpper :: "string \<Rightarrow> string" where
  "ToUpper s =
     map (\<lambda>c. case map_of (zip ''abcdefghijklmnopqrstuvwxyz'' ''ABCDEFGHIJKLMNOPQRSTUVWXYZ'') c of
                 Some u \<Rightarrow> u
               | None \<Rightarrow> c) s"

text \<open>
  The command line \<open>"HELLO 1 \"arduino-cli " + disc.userAgent + "\"\n"\<close>, and \<open>Run\<close> after
  \<open>runProcess\<close> has succeeded, up to the deferred function: the HELLO handshake.
\<close>

definition helloCommand :: "string \<Rightarrow> string" where
  \<open>helloCommand agent = ''HELLO 1 "arduino-cli '' @ agent @ ''"'' @ [CHR 0x0A]\<close>

definition hello :: "decoded list \<Rightarrow> world \<Rightarrow> (error option \<times> world) exec" where
  \<open>hello ins w =
     thenDo (sendCommand (helloCommand (userAgent w)) w)
       (\<lambda>(err, w).
          case err of
            Some e \<Rightarrow> Done (Some e, w)
          | None \<Rightarrow>
              thenDo (waitMessage ins w) (\<lambda>((msg, err), w).
                case err of
                  Some e \<Rightarrow> Done (Some (Calling ''HELLO'' e), w)
                | None \<Rightarrow>
                    (case msg of
                       None \<Rightarrow> Panic ''nil pointer dereference''
                     | Some msg \<Rightarrow>
                         if EventType msg \<noteq> ''hello''
                           then Done (Some (EventOutOfSync ''hello'' (EventType msg)), w)
                         else if Error msg
                           then Done (Some (CommandFailed (Message msg)), w)
                         else if ToUpper (Message msg) \<noteq> ''OK''
                           then Done (Some (CommunicationOutOfSync (Message msg)), w)
                         else if ProtocolVersion msg > 1
                           then Done (Some (ProtocolNotSupported (ProtocolVersion msg)), w)
                         else thenDo (Lock w) (\<lambda>w.
                                Done (None, Unlock (w\<lparr>state := Idling\<rparr>))))))\<close>

text \<open>
  \<open>Run\<close>. The deferred function kills the process when the handshake returned an error;
  an error of \<open>killProcess\<close> itself is only logged.
\<close>

definition Run ::
  "(string list \<Rightarrow> error + Process) \<Rightarrow> decoded list \<Rightarrow> world \<Rightarrow> (error option \<times> world) exec" where
  "Run NewProcess ins w =
     thenDo (runProcess NewProcess w) (\<lambda>(err, w).
       case err of
         Some e \<Rightarrow> Done (Some e, w)
       | None \<Rightarrow>
           thenDo (hello ins w) (\<lambda>(err, w).
             case err of
               None \<Rightarrow> Done (None, w)
             | Some e \<Rightarrow> thenDo (killProcess w) (\<lambda>(killErr, w). Done (Some e, w))))"

definition Start :: "decoded list \<Rightarrow> world \<Rightarrow> (error option \<times> world) exec" where
  "Start ins w =
     thenDo (sendCommand (''START'' @ [CHR 0x0A]) w) (\<lambda>(err, w).
       case err of
         Some e \<Rightarrow> Done (Some e, w)
       | None \<Rightarrow>
           thenDo (waitMessage ins w) (\<lambda>((msg, err), w).
             case err of
               Some e \<Rightarrow> Done (Some (Calling ''START'' e), w)
             | None \<Rightarrow>
                 (case msg of
                    None \<Rightarrow> Panic ''nil pointer dereference''
                  | Some msg \<Rightarrow>
                      if EventType msg \<noteq> ''start''
                        then Done (Some (EventOutOfSync ''start'' (EventType msg)), w)
                      else if Error msg
                        then Done (Some (CommandFailed (Message msg)), w)
                      else if ToUpper (Message msg) \<noteq> ''OK''
                        then Done (Some (CommunicationOutOfSync (Message msg)), w)
                      else thenDo (Lock w) (\<lambda>w.
                             Done (None, Unlock (w\<lparr>state := Running\<rparr>))))))"

definition Stop :: "decoded list \<Rightarrow> world \<Rightarrow> (error option \<times> world) exec" where
  "Stop ins w =
     thenDo (sendCommand (''STOP'' @ [CHR 0x0A]) w) (\<lambda>(err, w).
       case err of
         Some e \<Rightarrow> Done (Some e, w)
       | None \<Rightarrow>
           thenDo (waitMessage ins w) (\<lambda>((msg, err), w).
             case err of
               Some e \<Rightarrow> Done (Some (Calling ''STOP'' e), w)
             | None \<Rightarrow>
                 (case msg of
                    None \<Rightarrow> Panic ''nil pointer dereference''
                  | Some msg \<Rightarrow>
                      if EventType msg \<noteq> ''stop''
                        then Done (Some (EventOutOfSync ''stop'' (EventType msg)), w)
                      else if Error msg
                        then Done (Some (CommandFailed (Message msg)), w)
                      else if ToUpper (Message msg) \<noteq> ''OK''
                        then Done (Some (CommunicationOutOfSync (Message msg)), w)
                      else thenDo (Lock w) (\<lambda>w.
                           thenDo (stopSync w) (\<lambda>w.
                             Done (None, Unlock (w\<lparr>state := Idling\<rparr>)))))))"

text \<open>\<open>Quit\<close> returns nothing; the errors of the send, of the wait and of the kill are dropped.\<close>

definition Quit :: "decoded list \<Rightarrow> world \<Rightarrow> world exec" where
  "Quit ins w =
     thenDo (sendCommand (''QUIT'' @ [CHR 0x0A]) w) (\<lambda>(sendErr, w).
     thenDo (waitMessage ins w) (\<lambda>(reply, w).
     thenDo (stopSync w) (\<lambda>w.
     thenDo (killProcess w) (\<lambda>(killErr, w).
       Done w))))"

definition List ::
  "decoded list \<Rightarrow> world \<Rightarrow> ((Port option list option \<times> error option) \<times> world) exec" where
  "List ins w =
     thenDo (sendCommand (''LIST'' @ [CHR 0x0A]) w) (\<lambda>(err, w).
       case err of
         Some e \<Rightarrow> Done ((None, Some e), w)
       | None \<Rightarrow>
           thenDo (waitMessage ins w) (\<lambda>((msg, err), w).
             case err of
               Some e \<Rightarrow> Done ((None, Some (Calling ''LIST'' e)), w)
             | None \<Rightarrow>
                 (case msg of
                    None \<Rightarrow> Panic ''nil pointer dereference''
                  | Some msg \<Rightarrow>
                      if EventType msg \<noteq> ''list''
                        then Done ((None, Some (EventOutOfSync ''list'' (EventType msg))), w)
                      else if Error msg
                        then Done ((None, Some (CommandFailed (Message msg))), w)
                      else Done ((Ports msg, None), w))))"

text \<open>
  \<open>StartSync\<close> holds the mutex from its first statement to its return. The result is the
  handle of the new channel, or an error. \<open>make\<close> panics on a negative size. The source
  spells the text of its out-of-sync error "evemt out of sync"; the constructor
  \<open>EventOutOfSync\<close> stands for that error here as well.
\<close>

definition StartSync ::
  "int \<Rightarrow> decoded list \<Rightarrow> world \<Rightarrow> ((nat option \<times> error option) \<times> world) exec" where
  "StartSync size' ins w =
     thenDo (Lock w) (\<lambda>w.
     thenDo (sendCommand (''START_SYNC'' @ [CHR 0x0A]) w) (\<lambda>(err, w).
       case err of
         Some e \<Rightarrow> Done ((None, Some e), Unlock w)
       | None \<Rightarrow>
           thenDo (waitMessage ins w) (\<lambda>((msg, err), w).
             case err of
               Some e \<Rightarrow> Done ((None, Some (Calling ''START_SYNC'' e)), Unlock w)
             | None \<Rightarrow>
                 (case msg of
                    None \<Rightarrow> Panic ''nil pointer dereference''
                  | Some msg \<Rightarrow>
                      if EventType msg \<noteq> ''start_sync''
                        then Done ((None, Some (EventOutOfSync ''start_sync'' (EventType msg))),
                                   Unlock w)
                      else if Error msg
                        then Done ((None, Some (CommandFailed (Message msg))), Unlock w)
                      else if ToUpper (Message msg) \<noteq> ''OK''
                        then Done ((None, Some (CommunicationOutOfSync (Message msg))), Unlock w)
                      else
                        thenDo (stopSync (w\<lparr>state := Syncing\<rparr>)) (\<lambda>w.
                          if size' < 0 then Panic ''makechan: size out of range''
                          else
                            (let c = length (eventChans w) in
                             Done ((Some c, None),
                                   Unlock (w\<lparr>eventChans := eventChans w @
                                                [\<lparr>sent = [], room = nat size', closed = False\<rparr>],
                                              eventChan := Some c\<rparr>))))))))"

subsection \<open>Collaborators and messages used in examples\<close>

text \<open>A pipe that takes every write whole, and a process whose calls all succeed.\<close>

definition okWriter :: Writer where
  "okWriter = \<lparr> Write = (\<lambda>k data. (int (length data), None)), calls = 0, received = [] \<rparr>"

definition okProcess :: Process where
  "okProcess = \<lparr> stdoutPipe = None, stdinPipe = Inr okWriter, start = None,
                 kill = (\<lambda>k. None), wait = (\<lambda>k. None), killCalls = 0, waitCalls = 0 \<rparr>"

text \<open>\<open>paths.NewProcess\<close> returning the handle \<open>proc\<close>.\<close>

definition spawn :: "Process \<Rightarrow> string list \<Rightarrow> error + Process" where
  "spawn proc args = Inr proc"

text \<open>The reply \<open>{"eventType": t, "message": "OK"}\<close>.\<close>

definition okReply :: "string \<Rightarrow> discoveryMessage" where
  "okReply t = \<lparr> EventType = t, Message = ''OK'', Error = False, ProtocolVersion = 0,
                 Ports = None, Port = None \<rparr>"

definition examplePort :: Port where
  "examplePort = \<lparr> Address = ''1'', AddressLabel = ''Dummy upload port'', Protocol = ''dummy'',
                   ProtocolLabel = ''Dummy protocol'', Properties = None \<rparr>"

text \<open>What a call leaves behind when it returns; \<open>None\<close> when it does not.\<close>

primrec result :: "'a exec \<Rightarrow> 'a option" where
  "result (Done x) = Some x"
| "result Blocked = None"
| "result Diverges = None"
| "result (Panic s) = None"

subsection \<open>Predicates used in the statements\<close>



text \<open>A run of events that are all "add" or "remove" events.\<close>

definition onlyPortEvents :: "Event list \<Rightarrow> bool" where
  "onlyPortEvents evs \<longleftrightarrow> list_all (\<lambda>e. Type e = ''add'' \<or> Type e = ''remove'') evs"


subsection \<open>Example clients\<close>

text \<open>A world in which the pipe has taken one more command line whole.\<close>

definition sentLine :: "string \<Rightarrow> world \<Rightarrow> world" where
  "sentLine command w =
     w\<lparr>outgoingCommandsPipe :=
          map_option (\<lambda>p. p\<lparr>calls := calls p + 1,
                              received := received p @ command @ [CHR 0x0A]\<rparr>)
            (outgoingCommandsPipe w)\<rparr>"

text \<open>
  A new client for the discovery "serial-discovery" with user agent "ua"; the same
  client after a successful \<open>Run\<close>; and after a successful \<open>StartSync(2)\<close>.
\<close>

definition freshClient :: world where
  "freshClient = SetUserAgent ''ua'' (NewClient ''serial-discovery'' [''serial-discovery''])"

definition idleClient :: world where
  \<open>idleClient =
     \<lparr> id' = ''serial-discovery'', processArgs = [''serial-discovery''],
       process = Some okProcess,
       outgoingCommandsPipe =
         Some (okWriter\<lparr>calls := 1, received := ''HELLO 1 "arduino-cli ua"'' @ [CHR 0x0A]\<rparr>),
       incomingMessagesChan = Some 0, userAgent = ''ua'', statusMutex = Free,
       incomingMessagesError = None, state = Idling, eventChan = None,
       messageChans = [\<lparr>offered = None, mclosed = False\<rparr>], eventChans = [],
       stdout = [] \<rparr>\<close>

definition syncingClient :: world where
  "syncingClient =
     (sentLine ''START_SYNC'' idleClient)
       \<lparr> state := Syncing, eventChan := Some 0,
         eventChans := [\<lparr>sent = [], room = 2, closed = False\<rparr>] \<rparr>"

text \<open>A reply with \<open>"error": true\<close>, and an "add" envelope without a port.\<close>

definition errorReply :: "string \<Rightarrow> discoveryMessage" where
  "errorReply t = \<lparr> EventType = t, Message = ''failed'', Error = True, ProtocolVersion = 0,
                    Ports = None, Port = None \<rparr>"

definition addWithoutPort :: discoveryMessage where
  "addWithoutPort = \<lparr> EventType = ''add'', Message = '''', Error = False, ProtocolVersion = 0,
                      Ports = None, Port = None \<rparr>"

text \<open>An "add" or "remove" envelope (type \<open>t\<close>) for port \<open>p\<close>.\<close>

definition portEvent :: "string \<Rightarrow> Port \<Rightarrow> discoveryMessage" where
  "portEvent t p = \<lparr> EventType = t, Message = '''', Error = False, ProtocolVersion = 0,
                     Ports = None, Port = Some p \<rparr>"

text \<open>A process on which \<open>Kill\<close> fails, as it does on a process that has exited.\<close>

definition exitedProcess :: Process where
  "exitedProcess = okProcess\<lparr>kill := (\<lambda>k. Some (External ''os: process already finished''))\<rparr>"

section \<open>Properties of the dummy discovery\<close>

lemma startSyncCount_startSyncs:
  "startSyncCount (startSyncs n d) = startSyncCount d + of_nat n"
  by (induction n) (simp_all add: Dummy_StartSync_def Let_def)

lemma sint_of_nat_small:
  "n < 2 ^ 63 \<Longrightarrow> sint (of_nat n :: 64 word) = int n"
  by (simp add: signed_of_nat signed_take_bit_int_eq_self)

lemma smod5_dvd: "(int n smod 5 = 0) = (5 dvd n)"
  by (simp add: signed_modulo_int_def sgn_if) presburger

text \<open>
  Claim C10. On a fresh discovery, the \<open>n\<close>-th call of \<open>StartSync\<close> (counting the current
  one, and as long as the 64-bit counter has not wrapped) returns the error
  "could not start_sync every 5 times" exactly when \<open>n\<close> is a multiple of 5; then no
  emitter is started and the registered close channel is left as it was. On every other
  call it returns no error and starts the emitter on the new channel.
\<close>

theorem Dummy_StartSync_every_fifth:
  assumes "0 < n" and "n < 2 ^ 63"
  shows "(fst (Dummy_StartSync c (startSyncs (n - 1) newDummyDiscovery))
            = Some (ErrorsNew ''could not start_sync every 5 times'') \<longleftrightarrow> 5 dvd n)
       \<and> (5 dvd n \<longrightarrow>
            snd (snd (Dummy_StartSync c (startSyncs (n - 1) newDummyDiscovery))) = None
          \<and> closeChan (fst (snd (Dummy_StartSync c (startSyncs (n - 1) newDummyDiscovery))))
              = closeChan (startSyncs (n - 1) newDummyDiscovery))
       \<and> (\<not> 5 dvd n \<longrightarrow>
            fst (Dummy_StartSync c (startSyncs (n - 1) newDummyDiscovery)) = None
          \<and> snd (snd (Dummy_StartSync c (startSyncs (n - 1) newDummyDiscovery))) = Some c)"
proof -
  have cnt: "startSyncCount (startSyncs (n - 1) newDummyDiscovery) + 1 = (of_nat n :: 64 word)"
    using assms(1) by (cases n) (simp_all add: startSyncCount_startSyncs newDummyDiscovery_def)
  have "sint (of_nat n :: 64 word) smod 5 = 0 \<longleftrightarrow> 5 dvd n"
    using assms(2) by (simp add: sint_of_nat_small smod5_dvd)
  with cnt show ?thesis
    by (simp add: Dummy_StartSync_def Let_def)
qed

text \<open>The fifth call fails and starts no emitter; the sixth succeeds and starts one.\<close>

theorem Dummy_StartSync_every_fifth_witness:
  "(0::nat) < 5 \<and> (5::nat) < 2 ^ 63
   \<and> fst (Dummy_StartSync 5 (startSyncs 4 newDummyDiscovery))
       = Some (ErrorsNew ''could not start_sync every 5 times'')
   \<and> snd (snd (Dummy_StartSync 5 (startSyncs 4 newDummyDiscovery))) = None
   \<and> fst (Dummy_StartSync 6 (startSyncs 5 newDummyDiscovery)) = None
   \<and> snd (snd (Dummy_StartSync 6 (startSyncs 5 newDummyDiscovery))) = Some 6"
  using Dummy_StartSync_every_fifth [of 5 5] Dummy_StartSync_every_fifth [of 6 6] by simp

lemma emitter_shape:
  "\<exists>p1 p2 rest. fst (emitter sel ctr) = EventCB ''add'' p1 # EventCB ''add'' p2 # rest
      \<and> removesFollowAdds (EventCB ''add'' p2 # rest)"
  by (cases "sel 0"; cases "sel (Suc 0)"; cases "sel (Suc (Suc 0))";
      cases "sel (Suc (Suc (Suc 0)))")
     (simp_all add: emitter_def emitLoop.simps CreateDummyPort_def Let_def eval_nat_numeral)

lemma removesFollowAdds_nth:
  "removesFollowAdds cs \<Longrightarrow> Suc i < length cs \<Longrightarrow> cs ! Suc i = EventCB ''remove'' p \<Longrightarrow>
     \<exists>q. cs ! i = EventCB ''add'' q \<and> Address q = Address p \<and> Protocol q = Protocol p"
proof (induction cs arbitrary: i rule: removesFollowAdds.induct)
  case (1 t p t' p' cs)
  then show ?case by (cases i) auto
next
  case (2 s t' p' cs)
  then show ?case by (cases i) auto
next
  case (3 c s cs)
  then show ?case by (cases i) auto
qed auto

text \<open>
  Claim C9. Whatever the selects of the emitter goroutine choose and whatever the port
  counter is, the trace of the emitter starts with two "add" events, so that no
  "remove" comes before them, and every "remove" in the trace carries the address and
  the protocol of the "add" event directly before it.
\<close>

theorem emitter_two_adds_then_matching_removes:
  "(\<exists>p1 p2 rest. fst (emitter sel dummyCounter) = EventCB ''add'' p1 # EventCB ''add'' p2 # rest)
   \<and> (\<forall>i < length (fst (emitter sel dummyCounter)). \<forall>p.
         fst (emitter sel dummyCounter) ! i = EventCB ''remove'' p \<longrightarrow>
           2 \<le> i \<and> (\<exists>q. fst (emitter sel dummyCounter) ! (i - 1) = EventCB ''add'' q
                         \<and> Address q = Address p \<and> Protocol q = Protocol p))"
proof -
  obtain p1 p2 rest
    where out: "fst (emitter sel dummyCounter) = EventCB ''add'' p1 # EventCB ''add'' p2 # rest"
      and rfa: "removesFollowAdds (EventCB ''add'' p2 # rest)"
    using emitter_shape by blast
  have "2 \<le> i \<and> (\<exists>q. fst (emitter sel dummyCounter) ! (i - 1) = EventCB ''add'' q
                         \<and> Address q = Address p \<and> Protocol q = Protocol p)"
    if i: "i < length (fst (emitter sel dummyCounter))"
      and r: "fst (emitter sel dummyCounter) ! i = EventCB ''remove'' p" for i p
  proof -
    have "i \<noteq> 0" "i \<noteq> 1"
      using r out by (auto simp: nth_Cons' split: if_splits)
    then obtain j where j: "i = Suc (Suc j)"
      by (metis One_nat_def not0_implies_Suc)
    have "Suc j < length (EventCB ''add'' p2 # rest)"
      using i out j by simp
    moreover have "(EventCB ''add'' p2 # rest) ! Suc j = EventCB ''remove'' p"
      using r out j by simp
    ultimately obtain q where "(EventCB ''add'' p2 # rest) ! j = EventCB ''add'' q"
       "Address q = Address p" "Protocol q = Protocol p"
      using removesFollowAdds_nth [OF rfa] by blast
    then show ?thesis using j out by auto
  qed
  with out show ?thesis by blast
qed

text \<open>
  With every select timing out and the counter at 0, the fourth callback is the
  "remove" of port 3, and the third is the "add" of port 3.
\<close>

theorem emitter_two_adds_then_matching_removes_witness:
  "3 < length (fst (emitter (\<lambda>_. After) 0))
   \<and> fst (emitter (\<lambda>_. After) 0) ! 3
       = EventCB ''remove'' \<lparr> Address = ''3'', AddressLabel = '''', Protocol = ''dummy'',
                               ProtocolLabel = '''', Properties = None \<rparr>
   \<and> (\<exists>q. fst (emitter (\<lambda>_. After) 0) ! 2 = EventCB ''add'' q
            \<and> Address q = ''3'' \<and> Protocol q = ''dummy'')"
proof -
  have e: "fst (emitter (\<lambda>_. After) 0) ! 3
       = EventCB ''remove'' \<lparr> Address = ''3'', AddressLabel = '''', Protocol = ''dummy'',
                               ProtocolLabel = '''', Properties = None \<rparr>"
    and l: "3 < length (fst (emitter (\<lambda>_. After) 0))"
    by (simp_all add: emitter_def emitLoop.simps CreateDummyPort_def Let_def Sprintf_d_def)
  from emitter_two_adds_then_matching_removes [of "\<lambda>_. After" 0] l e
  show ?thesis by fastforce
qed

section \<open>Properties of the client\<close>

lemma chanAt_Some: "chanAt cs h = Some c \<longleftrightarrow> h < length cs \<and> c = cs ! h"
  by (auto simp: chanAt_def)

lemma chanAt_None: "chanAt cs h = None \<longleftrightarrow> length cs \<le> h"
  by (auto simp: chanAt_def)

lemma chanAt_update:
  "chanAt (cs[h := c]) k = (if k < length cs then Some (if k = h then c else cs ! k) else None)"
  by (auto simp: chanAt_def)

lemma thenDo_Done:
  "thenDo m f = Done y \<longleftrightarrow> (\<exists>x. m = Done x \<and> f x = Done y)"
  by (cases m) auto

subsection \<open>sendCommand\<close>

lemma sendData_received_aux:
  assumes "sendData data0 pipe0 = Some y0"
  shows "\<forall>err pipe'. y0 = Done (err, pipe') \<longrightarrow>
       Write pipe' = Write pipe0
       \<and> (\<exists>k. received pipe' = received pipe0 @ take k data0)
       \<and> (err = None \<longrightarrow> received pipe' = received pipe0 @ data0)"
proof (rule sendData.raw_induct [where P = "\<lambda>data pipe y. \<forall>err pipe'. y = Done (err, pipe') \<longrightarrow>
       Write pipe' = Write pipe
       \<and> (\<exists>k. received pipe' = received pipe @ take k data)
       \<and> (err = None \<longrightarrow> received pipe' = received pipe @ data)", OF _ assms])
  fix f :: "string \<Rightarrow> Writer \<Rightarrow> (error option \<times> Writer) exec option"
    and data pipe y
  assume IH: "\<And>d p y. f d p = Some y \<Longrightarrow> \<forall>err pipe'. y = Done (err, pipe') \<longrightarrow>
       Write pipe' = Write p
       \<and> (\<exists>k. received pipe' = received p @ take k d)
       \<and> (err = None \<longrightarrow> received pipe' = received p @ d)"
    and body: "(case Write pipe (calls pipe) data of
        (n, err) \<Rightarrow>
          (let pipe' = pipe\<lparr>calls := calls pipe + 1,
                             received := received pipe @ take (nat n) data\<rparr> in
           case err of
             None \<Rightarrow>
               if n = int (length data) then Some (Done (None, pipe'))
               else if n < 0 \<or> int (length data) < n
                 then Some (Panic ''slice bounds out of range'')
               else f (drop (nat n) data) pipe'
           | Some e \<Rightarrow> Some (Done (Some e, pipe')))) = Some y"
  obtain n e where w: "Write pipe (calls pipe) data = (n, e)"
    by (cases "Write pipe (calls pipe) data")
  show "\<forall>err pipe'. y = Done (err, pipe') \<longrightarrow>
       Write pipe' = Write pipe
       \<and> (\<exists>k. received pipe' = received pipe @ take k data)
       \<and> (err = None \<longrightarrow> received pipe' = received pipe @ data)"
  proof (intro allI impI)
    fix err pipe'
    assume y: "y = Done (err, pipe')"
    show "Write pipe' = Write pipe
       \<and> (\<exists>k. received pipe' = received pipe @ take k data)
       \<and> (err = None \<longrightarrow> received pipe' = received pipe @ data)"
    proof (cases e)
      case (Some a)
      with body w y show ?thesis by (auto simp: Let_def)
    next
      case None
      show ?thesis
      proof (cases "n = int (length data)")
        case True
        with body w None y show ?thesis
          by (auto simp: Let_def intro: exI[of _ "length data"])
      next
        case False
        with body w None y have rng: "0 \<le> n" "n < int (length data)"
          and rec: "f (drop (nat n) data)
                      (pipe\<lparr>calls := calls pipe + 1,
                            received := received pipe @ take (nat n) data\<rparr>)
                    = Some (Done (err, pipe'))"
          by (auto simp: Let_def split: if_splits)
        from IH [OF rec] have W: "Write pipe' = Write pipe"
          and ex: "\<exists>k. received pipe' = received pipe @ take (nat n) data @ take k (drop (nat n) data)"
          and full: "err = None \<longrightarrow> received pipe' = received pipe @ take (nat n) data @ drop (nat n) data"
          by auto
        from ex obtain k where
          k: "received pipe' = received pipe @ take (nat n) data @ take k (drop (nat n) data)"
          by blast
        have "take (nat n) data @ take k (drop (nat n) data) = take (nat n + k) data"
          by (simp add: take_add)
        with k have "\<exists>k. received pipe' = received pipe @ take k data" by auto
        with W full show ?thesis by simp
      qed
    qed
  qed
qed

lemma sendData_received:
  "sendData data pipe = Some (Done (None, pipe')) \<Longrightarrow> received pipe' = received pipe @ data"
  using sendData_received_aux by blast

lemma sendCommand_Done:
  "sendCommand command w = Done (err, w') \<Longrightarrow>
     \<exists>pipe pipe'. outgoingCommandsPipe w = Some pipe
        \<and> sendData command pipe = Some (Done (err, pipe'))
        \<and> w' = w\<lparr>outgoingCommandsPipe := Some pipe'\<rparr>"
  by (auto simp: sendCommand_def thenDo_Done split: option.splits)

subsection \<open>decode loop schema\<close>

lemma jsonDecodeLoop_preserves:
  assumes step: "\<And>d w w' c. P w \<Longrightarrow> chanAt (messageChans w) h = Some c \<Longrightarrow> \<not> mclosed c
                   \<Longrightarrow> offered c = None
                   \<Longrightarrow> iteration d h w = Next w' \<or> iteration d h w = Stay w' \<or> iteration d h w = Return w'
                   \<Longrightarrow> P w'"
    and run: "jsonDecodeLoop ins h w = Done (rest, w')"
    and init: "P w"
  shows "P w'"
  using run init
proof (induction ins arbitrary: w)
  case Nil
  then show ?case by simp
next
  case (Cons d ds)
  from Cons.prems(1) obtain c where c: "chanAt (messageChans w) h = Some c"
    by (auto split: option.splits)
  show ?case
  proof (cases "mclosed c \<or> offered c \<noteq> None")
    case True
    with Cons.prems c show ?thesis by auto
  next
    case False
    then have nc: "\<not> mclosed c" and no: "offered c = None" by auto
    show ?thesis
    proof (cases "iteration d h w")
      case (Next w1)
      have "P w1" using step [OF Cons.prems(2) c nc no] Next by auto
      moreover have "jsonDecodeLoop ds h w1 = Done (rest, w')"
        using Cons.prems(1) c False Next by simp
      ultimately show ?thesis using Cons.IH by blast
    next
      case (Stay w1)
      have "P w1" using step [OF Cons.prems(2) c nc no] Stay by auto
      then show ?thesis using Cons.prems(1) c False Stay by simp
    next
      case (Return w1)
      have "P w1" using step [OF Cons.prems(2) c nc no] Return by auto
      then show ?thesis using Cons.prems(1) c False Return by simp
    next
      case (Fault s)
      with Cons.prems c False show ?thesis by simp
    qed
  qed
qed

lemma lockedSend_cases:
  "lockedSend ev w = r \<Longrightarrow>
     (r = Stay w \<and> statusMutex w = Caller)
   \<or> (r = Next (w\<lparr>statusMutex := Free\<rparr>) \<and> statusMutex w \<noteq> Caller \<and> eventChan w = None)
   \<or> (\<exists>k c. r = Next (w\<lparr>eventChans := (eventChans w)[k := c\<lparr>sent := sent c @ [ev], room := room c - 1\<rparr>],
                          statusMutex := Free\<rparr>)
           \<and> statusMutex w \<noteq> Caller \<and> eventChan w = Some k \<and> k < length (eventChans w)
           \<and> c = eventChans w ! k \<and> \<not> closed c \<and> 0 < room c)
   \<or> (\<exists>k. r = Stay (w\<lparr>statusMutex := Loop\<rparr>)
           \<and> statusMutex w \<noteq> Caller \<and> eventChan w = Some k \<and> k < length (eventChans w)
           \<and> \<not> closed (eventChans w ! k) \<and> room (eventChans w ! k) = 0)
   \<or> (\<exists>s. r = Fault s)"
  unfolding lockedSend_def chanSend_def chanAt_def
  by (cases "eventChan w") (auto split: if_splits)

lemma endLoop_cases:
  "endLoop h err w = r \<Longrightarrow>
     (r = Stay w \<and> statusMutex w = Caller)
   \<or> (r = Return (closeAndReportError h err w) \<and> statusMutex w \<noteq> Caller)"
  unfolding endLoop_def by (cases "statusMutex w = Caller") auto

lemma iteration_cases:
  assumes "iteration d h w = r"
  shows "(r = Stay w \<and> statusMutex w = Caller)
   \<or> (\<exists>err. r = Return (closeAndReportError h err w) \<and> statusMutex w \<noteq> Caller)
   \<or> (r = Next (w\<lparr>statusMutex := Free\<rparr>) \<and> statusMutex w \<noteq> Caller \<and> eventChan w = None)
   \<or> (\<exists>k c t p. r = Next (w\<lparr>eventChans := (eventChans w)[k := c\<lparr>sent := sent c @ [Event t (Some p) (id' w)],
                                                               room := room c - 1\<rparr>],
                          statusMutex := Free\<rparr>)
           \<and> (t = ''add'' \<or> t = ''remove'')
           \<and> statusMutex w \<noteq> Caller \<and> eventChan w = Some k \<and> k < length (eventChans w)
           \<and> c = eventChans w ! k \<and> \<not> closed c \<and> 0 < room c)
   \<or> (\<exists>k. r = Stay (w\<lparr>statusMutex := Loop\<rparr>)
           \<and> statusMutex w \<noteq> Caller \<and> eventChan w = Some k \<and> k < length (eventChans w)
           \<and> \<not> closed (eventChans w ! k) \<and> room (eventChans w ! k) = 0)
   \<or> (\<exists>msg. r = Next (offer h msg w) \<and> d = Value msg
           \<and> EventType msg \<noteq> ''add'' \<and> EventType msg \<noteq> ''remove'')
   \<or> (\<exists>s. r = Fault s)"
proof (cases d)
  case EndOfStream
  with assms endLoop_cases [of h EOF w r] show ?thesis by (auto simp: iteration_def)
next
  case (Malformed err)
  with assms endLoop_cases [of h err w r] show ?thesis by (auto simp: iteration_def)
next
  case (Value msg)
  show ?thesis
  proof (cases "EventType msg = ''add''")
    case True
    show ?thesis
    proof (cases "discoveryMessage.Port msg")
      case None
      with assms Value True endLoop_cases [of h _ w r] show ?thesis
        by (simp add: iteration_def) blast
    next
      case (Some p)
      with assms Value True have "lockedSend (Event ''add'' (Some p) (id' w)) w = r"
        by (simp add: iteration_def GetID_def)
      from lockedSend_cases [OF this] show ?thesis by blast
    qed
  next
    case False
    show ?thesis
    proof (cases "EventType msg = ''remove''")
      case True
      show ?thesis
      proof (cases "discoveryMessage.Port msg")
        case None
        with assms Value True False endLoop_cases [of h _ w r] show ?thesis
          by (simp add: iteration_def) blast
      next
        case (Some p)
        with assms Value True False have "lockedSend (Event ''remove'' (Some p) (id' w)) w = r"
          by (simp add: iteration_def GetID_def)
        from lockedSend_cases [OF this] show ?thesis by blast
      qed
    next
      case nr: False
      with assms Value False show ?thesis by (auto simp: iteration_def)
    qed
  qed
qed

lemmas step_defs = closeAndReportError_def closeOut_def offer_def chanAt_def nth_list_update

text \<open>The world a pass of the loop leaves behind.\<close>

lemma iteration_world:
  assumes "iteration d h w = Next w' \<or> iteration d h w = Stay w' \<or> iteration d h w = Return w'"
  shows "w' = w
   \<or> (\<exists>err. w' = closeAndReportError h err w \<and> statusMutex w \<noteq> Caller)
   \<or> (w' = w\<lparr>statusMutex := Free\<rparr> \<and> statusMutex w \<noteq> Caller \<and> eventChan w = None)
   \<or> (\<exists>k c t p. w' = w\<lparr>eventChans := (eventChans w)[k := c\<lparr>sent := sent c @ [Event t (Some p) (id' w)],
                                                               room := room c - 1\<rparr>],
                          statusMutex := Free\<rparr>
           \<and> (t = ''add'' \<or> t = ''remove'')
           \<and> statusMutex w \<noteq> Caller \<and> eventChan w = Some k \<and> k < length (eventChans w)
           \<and> c = eventChans w ! k \<and> \<not> closed c \<and> 0 < room c)
   \<or> (\<exists>k. w' = w\<lparr>statusMutex := Loop\<rparr>
           \<and> statusMutex w \<noteq> Caller \<and> eventChan w = Some k \<and> k < length (eventChans w)
           \<and> \<not> closed (eventChans w ! k) \<and> room (eventChans w ! k) = 0)
   \<or> (\<exists>msg. w' = offer h msg w \<and> d = Value msg
           \<and> EventType msg \<noteq> ''add'' \<and> EventType msg \<noteq> ''remove'')"
  using iteration_cases [OF refl, of d h w] assms
  apply (elim disjE exE conjE)
  apply simp_all
  apply blast+
  done

lemma jsonDecodeLoop_frame:
  assumes "jsonDecodeLoop ins h w = Done (rest, w')"
  shows "id' w' = id' w \<and> processArgs w' = processArgs w \<and> process w' = process w
       \<and> outgoingCommandsPipe w' = outgoingCommandsPipe w
       \<and> incomingMessagesChan w' = incomingMessagesChan w \<and> userAgent w' = userAgent w
       \<and> eventChan w' = eventChan w \<and> stdout w' = stdout w
       \<and> length (messageChans w') = length (messageChans w)
       \<and> length (eventChans w') = length (eventChans w)
       \<and> (\<forall>k. closed (eventChans w' ! k) = closed (eventChans w ! k))"
proof (rule jsonDecodeLoop_preserves [where P = "\<lambda>w'. id' w' = id' w \<and> processArgs w' = processArgs w \<and> process w' = process w
       \<and> outgoingCommandsPipe w' = outgoingCommandsPipe w
       \<and> incomingMessagesChan w' = incomingMessagesChan w \<and> userAgent w' = userAgent w
       \<and> eventChan w' = eventChan w \<and> stdout w' = stdout w
       \<and> length (messageChans w') = length (messageChans w)
       \<and> length (eventChans w') = length (eventChans w)
       \<and> (\<forall>k. closed (eventChans w' ! k) = closed (eventChans w ! k))", OF _ assms])
  fix d wa wb c
  assume it: "iteration d h wa = Next wb \<or> iteration d h wa = Stay wb \<or> iteration d h wa = Return wb"
    and P: "id' wa = id' w \<and> processArgs wa = processArgs w \<and> process wa = process w
       \<and> outgoingCommandsPipe wa = outgoingCommandsPipe w
       \<and> incomingMessagesChan wa = incomingMessagesChan w \<and> userAgent wa = userAgent w
       \<and> eventChan wa = eventChan w \<and> stdout wa = stdout w
       \<and> length (messageChans wa) = length (messageChans w)
       \<and> length (eventChans wa) = length (eventChans w)
       \<and> (\<forall>k. closed (eventChans wa ! k) = closed (eventChans w ! k))"
  show "id' wb = id' w \<and> processArgs wb = processArgs w \<and> process wb = process w
       \<and> outgoingCommandsPipe wb = outgoingCommandsPipe w
       \<and> incomingMessagesChan wb = incomingMessagesChan w \<and> userAgent wb = userAgent w
       \<and> eventChan wb = eventChan w \<and> stdout wb = stdout w
       \<and> length (messageChans wb) = length (messageChans w)
       \<and> length (eventChans wb) = length (eventChans w)
       \<and> (\<forall>k. closed (eventChans wb ! k) = closed (eventChans w ! k))"
    using iteration_world [OF it] P
    apply (elim disjE exE conjE)
    apply (simp_all add: step_defs)
    done
qed simp

lemma jsonDecodeLoop_state:
  assumes "jsonDecodeLoop ins h w = Done (rest, w')"
  shows "(state w' = state w \<and> incomingMessagesError w' = incomingMessagesError w)
       \<or> (state w' = Dead \<and> incomingMessagesError w' \<noteq> None
           \<and> h < length (messageChans w') \<and> mclosed (messageChans w' ! h)
           \<and> offered (messageChans w' ! h) = None)"
proof (rule jsonDecodeLoop_preserves [where P = "\<lambda>w'. (state w' = state w \<and> incomingMessagesError w' = incomingMessagesError w)
       \<or> (state w' = Dead \<and> incomingMessagesError w' \<noteq> None
           \<and> h < length (messageChans w') \<and> mclosed (messageChans w' ! h)
           \<and> offered (messageChans w' ! h) = None)", OF _ assms])
  fix d wa wb c
  assume it: "iteration d h wa = Next wb \<or> iteration d h wa = Stay wb \<or> iteration d h wa = Return wb"
    and c: "chanAt (messageChans wa) h = Some c" "\<not> mclosed c" "offered c = None"
    and P: "(state wa = state w \<and> incomingMessagesError wa = incomingMessagesError w)
       \<or> (state wa = Dead \<and> incomingMessagesError wa \<noteq> None
           \<and> h < length (messageChans wa) \<and> mclosed (messageChans wa ! h)
           \<and> offered (messageChans wa ! h) = None)"
  from c have h: "h < length (messageChans wa)" "\<not> mclosed (messageChans wa ! h)"
     "offered (messageChans wa ! h) = None"
    by (auto simp: chanAt_def split: if_splits)
  with P have P': "state wa = state w" "incomingMessagesError wa = incomingMessagesError w" by auto
  show "(state wb = state w \<and> incomingMessagesError wb = incomingMessagesError w)
       \<or> (state wb = Dead \<and> incomingMessagesError wb \<noteq> None
           \<and> h < length (messageChans wb) \<and> mclosed (messageChans wb ! h)
           \<and> offered (messageChans wb ! h) = None)"
    using iteration_world [OF it] P' h
    apply (elim disjE exE conjE)
    apply (simp_all add: step_defs)
    done
qed simp


lemma jsonDecodeLoop_free:
  assumes "jsonDecodeLoop ins h w = Done (rest, w')"
    and "statusMutex w = Free" and "eventChan w = None"
  shows "statusMutex w' = Free \<and> eventChans w' = eventChans w"
proof -
  have "statusMutex w' = Free \<and> eventChan w' = None \<and> eventChans w' = eventChans w"
  proof (rule jsonDecodeLoop_preserves [where P = "\<lambda>w'. statusMutex w' = Free \<and> eventChan w' = None \<and> eventChans w' = eventChans w", OF _ assms(1)])
    fix d wa wb c
    assume it: "iteration d h wa = Next wb \<or> iteration d h wa = Stay wb \<or> iteration d h wa = Return wb"
      and P: "statusMutex wa = Free \<and> eventChan wa = None \<and> eventChans wa = eventChans w"
    show "statusMutex wb = Free \<and> eventChan wb = None \<and> eventChans wb = eventChans w"
      using iteration_world [OF it] P
      apply (elim disjE exE conjE)
      apply (simp_all add: step_defs)
      done
  qed (simp add: assms)
  then show ?thesis by simp
qed

lemma jsonDecodeLoop_caller:
  assumes "jsonDecodeLoop ins h w = Done (rest, w')"
    and "statusMutex w = Caller"
  shows "statusMutex w' = Caller \<and> state w' = state w
       \<and> incomingMessagesError w' = incomingMessagesError w \<and> eventChans w' = eventChans w"
proof (rule jsonDecodeLoop_preserves [where P = "\<lambda>w'. statusMutex w' = Caller \<and> state w' = state w
       \<and> incomingMessagesError w' = incomingMessagesError w \<and> eventChans w' = eventChans w", OF _ assms(1)])
  fix d wa wb c
  assume it: "iteration d h wa = Next wb \<or> iteration d h wa = Stay wb \<or> iteration d h wa = Return wb"
    and P: "statusMutex wa = Caller \<and> state wa = state w
       \<and> incomingMessagesError wa = incomingMessagesError w \<and> eventChans wa = eventChans w"
  show "statusMutex wb = Caller \<and> state wb = state w
       \<and> incomingMessagesError wb = incomingMessagesError w \<and> eventChans wb = eventChans w"
    using iteration_world [OF it] P
    apply (elim disjE exE conjE)
    apply (simp_all add: step_defs)
    done
qed (simp add: assms)

lemma jsonDecodeLoop_events:
  assumes "jsonDecodeLoop ins h w = Done (rest, w')"
  shows "\<forall>k. \<exists>evs. sent (eventChans w' ! k) = sent (eventChans w ! k) @ evs \<and> onlyPortEvents evs"
proof (rule jsonDecodeLoop_preserves [where P = "\<lambda>w'. \<forall>k. \<exists>evs. sent (eventChans w' ! k) = sent (eventChans w ! k) @ evs \<and> onlyPortEvents evs", OF _ assms(1)])
  fix d wa wb c
  assume it: "iteration d h wa = Next wb \<or> iteration d h wa = Stay wb \<or> iteration d h wa = Return wb"
    and P: "\<forall>k. \<exists>evs. sent (eventChans wa ! k) = sent (eventChans w ! k) @ evs \<and> onlyPortEvents evs"
  show "\<forall>k. \<exists>evs. sent (eventChans wb ! k) = sent (eventChans w ! k) @ evs \<and> onlyPortEvents evs"
  proof
    fix k
    from P obtain evs where evs: "sent (eventChans wa ! k) = sent (eventChans w ! k) @ evs"
      "onlyPortEvents evs" by blast
    have "sent (eventChans wb ! k) = sent (eventChans wa ! k)
        \<or> (\<exists>e. sent (eventChans wb ! k) = sent (eventChans wa ! k) @ [e]
               \<and> (Type e = ''add'' \<or> Type e = ''remove''))"
      using iteration_world [OF it]
      apply (elim disjE exE conjE)
      apply (simp_all add: step_defs)
      done
    with evs show "\<exists>evs. sent (eventChans wb ! k) = sent (eventChans w ! k) @ evs \<and> onlyPortEvents evs"
      by (auto simp: onlyPortEvents_def)
  qed
qed (simp add: onlyPortEvents_def)

lemma stopSync_Done:
  assumes "stopSync w = Done w'"
  shows "(eventChan w = None \<and> w' = w)
     \<or> (\<exists>h. eventChan w = Some h \<and> h < length (eventChans w)
          \<and> \<not> closed (eventChans w ! h) \<and> 0 < room (eventChans w ! h)
          \<and> w' = w\<lparr>eventChans := (eventChans w)[h := (eventChans w ! h)
                       \<lparr>sent := sent (eventChans w ! h) @ [Event ''stop'' None (id' w)],
                        room := room (eventChans w ! h) - 1, closed := True\<rparr>],
                    eventChan := None\<rparr>)"
  using assms
  by (cases "eventChan w")
     (auto simp: stopSync_def chanSend_def chanClose_def chanAt_def GetID_def thenDo_Done
           split: if_splits)

lemma stopSync_flush:
  assumes "eventChan w = Some h" "h < length (eventChans w)"
    "\<not> closed (eventChans w ! h)" "0 < room (eventChans w ! h)"
  shows "stopSync w = Done (w\<lparr>eventChans := (eventChans w)[h := (eventChans w ! h)
                       \<lparr>sent := sent (eventChans w ! h) @ [Event ''stop'' None (id' w)],
                        room := room (eventChans w ! h) - 1, closed := True\<rparr>],
                    eventChan := None\<rparr>)"
  using assms
  by (simp add: stopSync_def chanSend_def chanClose_def chanAt_def GetID_def)

lemma runDecodeLoop_Done:
  assumes "runDecodeLoop ins w = Done w'"
  shows "(incomingMessagesChan w = None \<and> w' = w\<lparr>stdout := stdout w @ ins\<rparr>)
       \<or> (\<exists>h rest w1. incomingMessagesChan w = Some h
             \<and> jsonDecodeLoop (stdout w @ ins) h w = Done (rest, w1) \<and> w' = w1\<lparr>stdout := rest\<rparr>)"
  using assms
  by (cases "incomingMessagesChan w") (auto simp: runDecodeLoop_def thenDo_Done)

lemma selectMessage_Done:
  assumes "selectMessage ins w = Done (s, w')"
  shows "(incomingMessagesChan w = None \<and> s = TimerFired \<and> w' = w\<lparr>stdout := stdout w @ ins\<rparr>)
       \<or> (\<exists>h rest w1. incomingMessagesChan w = Some h
             \<and> jsonDecodeLoop (stdout w @ ins) h w = Done (rest, w1)
             \<and> h < length (messageChans w1)
             \<and> ((\<exists>msg. offered (messageChans w1 ! h) = Some msg \<and> s = Received msg
                    \<and> w' = w1\<lparr>stdout := rest,
                               messageChans := (messageChans w1)[h := (messageChans w1 ! h)\<lparr>offered := None\<rparr>]\<rparr>)
               \<or> (offered (messageChans w1 ! h) = None \<and> mclosed (messageChans w1 ! h)
                    \<and> s = ReceivedNil \<and> w' = w1\<lparr>stdout := rest\<rparr>)
               \<or> (offered (messageChans w1 ! h) = None \<and> \<not> mclosed (messageChans w1 ! h)
                    \<and> s = TimerFired \<and> w' = w1\<lparr>stdout := rest\<rparr>)))"
proof -
  from assms obtain w2 where run: "runDecodeLoop ins w = Done w2"
    and sel: "(case incomingMessagesChan w2 of
         None \<Rightarrow> Done (TimerFired, w2)
       | Some h \<Rightarrow>
           (case chanAt (messageChans w2) h of
              None \<Rightarrow> Panic ''invalid channel''
            | Some c \<Rightarrow>
                (case offered c of
                   Some msg \<Rightarrow>
                     Done (Received msg,
                           w2\<lparr>messageChans := (messageChans w2)[h := c\<lparr>offered := None\<rparr>]\<rparr>)
                 | None \<Rightarrow>
                     if mclosed c then Done (ReceivedNil, w2) else Done (TimerFired, w2)))) = Done (s, w')"
    by (auto simp: selectMessage_def thenDo_Done)
  from runDecodeLoop_Done [OF run] show ?thesis
  proof (elim disjE exE conjE)
    assume "incomingMessagesChan w = None" "w2 = w\<lparr>stdout := stdout w @ ins\<rparr>"
    with sel show ?thesis by simp
  next
    fix h rest w1
    assume h: "incomingMessagesChan w = Some h"
      and loop: "jsonDecodeLoop (stdout w @ ins) h w = Done (rest, w1)"
      and w2: "w2 = w1\<lparr>stdout := rest\<rparr>"
    from jsonDecodeLoop_frame [OF loop] h have h1: "incomingMessagesChan w1 = Some h" by simp
    with sel w2 have "h < length (messageChans w1)"
      by (auto simp: chanAt_def split: if_splits)
    with sel w2 h1 h loop show ?thesis
      by (cases "offered (messageChans w1 ! h)") (auto simp: chanAt_def split: if_splits)
  qed
qed

text \<open>What the select leaves of the client when it returns.\<close>

lemma selectMessage_frame:
  assumes "selectMessage ins w = Done (s, w')"
  shows "id' w' = id' w \<and> processArgs w' = processArgs w \<and> process w' = process w
       \<and> outgoingCommandsPipe w' = outgoingCommandsPipe w
       \<and> incomingMessagesChan w' = incomingMessagesChan w \<and> userAgent w' = userAgent w
       \<and> eventChan w' = eventChan w
       \<and> length (messageChans w') = length (messageChans w)
       \<and> length (eventChans w') = length (eventChans w)
       \<and> (\<forall>k. closed (eventChans w' ! k) = closed (eventChans w ! k))"
  using selectMessage_Done [OF assms]
  by (elim disjE exE conjE) (use jsonDecodeLoop_frame in \<open>simp, fastforce, fastforce, fastforce\<close>)

lemma selectMessage_state:
  assumes "selectMessage ins w = Done (s, w')"
  shows "(state w' = state w \<and> incomingMessagesError w' = incomingMessagesError w)
       \<or> (s = ReceivedNil \<and> state w' = Dead \<and> incomingMessagesError w' \<noteq> None)"
  using selectMessage_Done [OF assms]
proof (elim disjE exE conjE)
  fix h rest w1 msg
  assume loop: "jsonDecodeLoop (stdout w @ ins) h w = Done (rest, w1)"
    and "offered (messageChans w1 ! h) = Some msg"
    and "w' = w1\<lparr>stdout := rest, messageChans := (messageChans w1)[h := (messageChans w1 ! h)\<lparr>offered := None\<rparr>]\<rparr>"
  with jsonDecodeLoop_state [OF loop] show ?thesis by auto
next
  fix h rest w1
  assume loop: "jsonDecodeLoop (stdout w @ ins) h w = Done (rest, w1)"
    and "s = ReceivedNil" "w' = w1\<lparr>stdout := rest\<rparr>"
  with jsonDecodeLoop_state [OF loop] show ?thesis by auto
next
  fix h rest w1
  assume loop: "jsonDecodeLoop (stdout w @ ins) h w = Done (rest, w1)"
    and "\<not> mclosed (messageChans w1 ! h)" "w' = w1\<lparr>stdout := rest\<rparr>"
  with jsonDecodeLoop_state [OF loop] show ?thesis by auto
qed simp

lemma waitMessage_Done:
  "waitMessage ins w = Done ((msg, err), w') \<longleftrightarrow>
     (\<exists>s. selectMessage ins w = Done (s, w')
        \<and> (case s of Received m \<Rightarrow> msg = Some m \<and> err = None
            | ReceivedNil \<Rightarrow> msg = None \<and> err = incomingMessagesError w'
            | TimerFired \<Rightarrow> msg = None \<and> err = Some (Timeout (id' w'))))"
  by (auto simp: waitMessage_def thenDo_Done split: selection.splits)

lemma sendCommand_frame:
  assumes "sendCommand command w = Done (err, w')"
  shows "id' w' = id' w \<and> processArgs w' = processArgs w \<and> process w' = process w
       \<and> incomingMessagesChan w' = incomingMessagesChan w \<and> userAgent w' = userAgent w
       \<and> statusMutex w' = statusMutex w \<and> incomingMessagesError w' = incomingMessagesError w
       \<and> state w' = state w \<and> eventChan w' = eventChan w
       \<and> messageChans w' = messageChans w \<and> eventChans w' = eventChans w
       \<and> stdout w' = stdout w"
  using sendCommand_Done [OF assms] by auto

subsection \<open>Running the model on the example clients\<close>

lemmas eval_defs =
  Run_def runProcess_def hello_def helloCommand_def killProcess_def killProcessLocked_def stopSync_def
  Start_def Stop_def Quit_def List_def StartSync_def
  sendCommand_def sendData.simps waitMessage_def selectMessage_def runDecodeLoop_def
  iteration_def endLoop_def lockedSend_def closeAndReportError_def closeOut_def offer_def
  chanAt_def chanSend_def chanClose_def Lock_def Unlock_def GetID_def ToUpper_def
  NewClient_def SetUserAgent_def okWriter_def okProcess_def okReply_def Let_def spawn_def
  sentLine_def freshClient_def idleClient_def syncingClient_def errorReply_def
  addWithoutPort_def exitedProcess_def examplePort_def portEvent_def

lemma Run_freshClient:
  "Run (spawn okProcess) [Value (okReply ''hello'')] freshClient = Done (None, idleClient)"
  by (simp add: eval_defs)

lemma StartSync_idleClient:
  "StartSync 2 [Value (okReply ''start_sync'')] idleClient = Done ((Some 0, None), syncingClient)"
  by (simp add: eval_defs)

subsection \<open>Run and the handshake\<close>

lemma toUpper_O:
  "(case map_of (zip ''abcdefghijklmnopqrstuvwxyz'' ''ABCDEFGHIJKLMNOPQRSTUVWXYZ'') a of
      Some u \<Rightarrow> u | None \<Rightarrow> a) = CHR ''O'' \<longleftrightarrow> a = CHR ''o'' \<or> a = CHR ''O''"
  by (auto split: if_splits)

lemma toUpper_K:
  "(case map_of (zip ''abcdefghijklmnopqrstuvwxyz'' ''ABCDEFGHIJKLMNOPQRSTUVWXYZ'') a of
      Some u \<Rightarrow> u | None \<Rightarrow> a) = CHR ''K'' \<longleftrightarrow> a = CHR ''k'' \<or> a = CHR ''K''"
  by (auto split: if_splits)

lemma ToUpper_OK:
  "ToUpper s = ''OK'' \<longleftrightarrow> s = ''OK'' \<or> s = ''Ok'' \<or> s = ''oK'' \<or> s = ''ok''"
proof (cases s)
  case Nil
  then show ?thesis by (simp add: ToUpper_def)
next
  case (Cons a s1)
  show ?thesis
  proof (cases s1)
    case Nil
    with Cons show ?thesis by (simp add: ToUpper_def)
  next
    case (Cons b s2)
    show ?thesis
    proof (cases s2)
      case Nil
      with \<open>s = a # s1\<close> \<open>s1 = b # s2\<close> show ?thesis
        unfolding ToUpper_def using toUpper_O [of a] toUpper_K [of b]
        by (simp del: map_of.simps zip.simps) blast
    next
      case (Cons c s3)
      with \<open>s = a # s1\<close> \<open>s1 = b # s2\<close> show ?thesis by (simp add: ToUpper_def)
    qed
  qed
qed

lemma runProcess_Done:
  assumes "runProcess NewProcess w = Done (None, w1)"
  shows "\<exists>proc stdin. NewProcess (processArgs w) = Inr proc \<and> stdoutPipe proc = None
           \<and> stdinPipe proc = Inr stdin \<and> start proc = None \<and> statusMutex w = Free
           \<and> w1 = w\<lparr>outgoingCommandsPipe := Some stdin,
                     messageChans := messageChans w @ [\<lparr>offered = None, mclosed = False\<rparr>],
                     incomingMessagesChan := Some (length (messageChans w)),
                     stdout := [], process := Some proc, state := Alive\<rparr>"
  using assms
  by (auto simp: runProcess_def Let_def Lock_def Unlock_def thenDo_Done
           split: sum.splits option.splits if_splits)


lemma selectMessage_free:
  assumes "selectMessage ins w = Done (s, w')" and "statusMutex w = Free" and "eventChan w = None"
  shows "statusMutex w' = Free \<and> eventChan w' = None \<and> eventChans w' = eventChans w"
  using selectMessage_Done [OF assms(1)]
proof (elim disjE exE conjE)
  assume "w' = w\<lparr>stdout := stdout w @ ins\<rparr>"
  with assms show ?thesis by simp
next
  fix h rest w1 msg
  assume loop: "jsonDecodeLoop (stdout w @ ins) h w = Done (rest, w1)"
    and "w' = w1\<lparr>stdout := rest, messageChans := (messageChans w1)[h := (messageChans w1 ! h)\<lparr>offered := None\<rparr>]\<rparr>"
  with jsonDecodeLoop_free [OF loop assms(2,3)] jsonDecodeLoop_frame [OF loop] assms(3)
  show ?thesis by simp
next
  fix h rest w1
  assume loop: "jsonDecodeLoop (stdout w @ ins) h w = Done (rest, w1)"
    and "w' = w1\<lparr>stdout := rest\<rparr>" "s = ReceivedNil"
  with jsonDecodeLoop_free [OF loop assms(2,3)] jsonDecodeLoop_frame [OF loop] assms(3)
  show ?thesis by simp
next
  fix h rest w1
  assume loop: "jsonDecodeLoop (stdout w @ ins) h w = Done (rest, w1)"
    and "w' = w1\<lparr>stdout := rest\<rparr>" "s = TimerFired"
  with jsonDecodeLoop_free [OF loop assms(2,3)] jsonDecodeLoop_frame [OF loop] assms(3)
  show ?thesis by simp
qed

lemma killProcess_kills:
  assumes "process w = Some proc" and "statusMutex w = Free" and "eventChan w = None"
  shows "\<exists>err w' proc'. killProcess w = Done (err, w') \<and> process w' = Some proc'
           \<and> killCalls proc' = killCalls proc + 1
           \<and> (kill proc (killCalls proc) = None \<and> wait proc (waitCalls proc) = None
                \<longrightarrow> err = None \<and> state w' = Dead \<and> waitCalls proc' = waitCalls proc + 1)"
  using assms
  by (cases "kill proc (killCalls proc)"; cases "wait proc (waitCalls proc)")
     (simp_all add: killProcess_def killProcessLocked_def Lock_def Unlock_def stopSync_def Let_def)

text \<open>The handshake after a reply has been received.\<close>

lemma hello_reply:
  assumes "sendCommand (helloCommand (userAgent w)) w = Done (None, w1)"
    and "selectMessage ins w1 = Done (Received msg, w2)"
    and "statusMutex w2 = Free"
  shows "hello ins w =
     (if EventType msg \<noteq> ''hello''
        then Done (Some (EventOutOfSync ''hello'' (EventType msg)), w2)
      else if Error msg
        then Done (Some (CommandFailed (Message msg)), w2)
      else if ToUpper (Message msg) \<noteq> ''OK''
        then Done (Some (CommunicationOutOfSync (Message msg)), w2)
      else if ProtocolVersion msg > 1
        then Done (Some (ProtocolNotSupported (ProtocolVersion msg)), w2)
      else Done (None, w2\<lparr>state := Idling\<rparr>))"
proof -
  from assms(2) have "waitMessage ins w1 = Done ((Some msg, None), w2)"
    by (simp add: waitMessage_Done)
  with assms(1,3) show ?thesis
    by (simp add: hello_def Lock_def Unlock_def)
qed

text \<open>The outcome of \<open>Run\<close> once the reply to HELLO has been received.\<close>

lemma Run_after_reply:
  assumes "runProcess NewProcess w = Done (None, w1)"
    and "sendCommand (helloCommand (userAgent w1)) w1 = Done (None, w2)"
    and "selectMessage ins w2 = Done (Received msg, w3)"
    and "eventChan w = None"
  shows "((\<exists>w'. Run NewProcess ins w = Done (None, w'))
           \<longleftrightarrow> EventType msg = ''hello'' \<and> \<not> Error msg
               \<and> (Message msg = ''OK'' \<or> Message msg = ''Ok'' \<or> Message msg = ''oK''
                    \<or> Message msg = ''ok'')
               \<and> ProtocolVersion msg \<le> 1)
       \<and> (\<forall>w'. Run NewProcess ins w = Done (None, w') \<longrightarrow> state w' = Idling)
       \<and> (\<not> (EventType msg = ''hello'' \<and> \<not> Error msg
               \<and> (Message msg = ''OK'' \<or> Message msg = ''Ok'' \<or> Message msg = ''oK''
                    \<or> Message msg = ''ok'')
               \<and> ProtocolVersion msg \<le> 1)
            \<longrightarrow> (\<exists>e w' proc proc'. Run NewProcess ins w = Done (Some e, w')
                    \<and> NewProcess (processArgs w) = Inr proc \<and> process w' = Some proc'
                    \<and> killCalls proc' = killCalls proc + 1
                    \<and> (kill proc (killCalls proc) = None \<and> wait proc (waitCalls proc) = None
                          \<longrightarrow> waitCalls proc' = waitCalls proc + 1 \<and> state w' = Dead)))"
proof -
  from runProcess_Done [OF assms(1)] obtain proc stdin where
    np: "NewProcess (processArgs w) = Inr proc" and
    w1: "w1 = w\<lparr>outgoingCommandsPipe := Some stdin,
                     messageChans := messageChans w @ [\<lparr>offered = None, mclosed = False\<rparr>],
                     incomingMessagesChan := Some (length (messageChans w)),
                     stdout := [], process := Some proc, state := Alive\<rparr>"
    and free: "statusMutex w = Free"
    by blast
  from w1 free assms(4) have f1: "statusMutex w1 = Free" "eventChan w1 = None" "process w1 = Some proc"
    by simp_all
  with sendCommand_frame [OF assms(2)]
  have f2: "statusMutex w2 = Free" "eventChan w2 = None" "process w2 = Some proc" by simp_all
  from selectMessage_free [OF assms(3) f2(1,2)] selectMessage_frame [OF assms(3)] f2
  have f3: "statusMutex w3 = Free" "eventChan w3 = None" "process w3 = Some proc" by simp_all
  let ?ok = "EventType msg = ''hello'' \<and> \<not> Error msg
               \<and> (Message msg = ''OK'' \<or> Message msg = ''Ok'' \<or> Message msg = ''oK''
                    \<or> Message msg = ''ok'')
               \<and> ProtocolVersion msg \<le> 1"
  have hello: "hello ins w1 =
     (if EventType msg \<noteq> ''hello''
        then Done (Some (EventOutOfSync ''hello'' (EventType msg)), w3)
      else if Error msg
        then Done (Some (CommandFailed (Message msg)), w3)
      else if ToUpper (Message msg) \<noteq> ''OK''
        then Done (Some (CommunicationOutOfSync (Message msg)), w3)
      else if ProtocolVersion msg > 1
        then Done (Some (ProtocolNotSupported (ProtocolVersion msg)), w3)
      else Done (None, w3\<lparr>state := Idling\<rparr>))"
    by (rule hello_reply [OF assms(2,3) f3(1)])
  have run: "Run NewProcess ins w =
     thenDo (hello ins w1) (\<lambda>(err, w).
             case err of
               None \<Rightarrow> Done (None, w)
             | Some e \<Rightarrow> thenDo (killProcess w) (\<lambda>(killErr, w). Done (Some e, w)))"
    using assms(1) by (simp add: Run_def)
  have good: "Run NewProcess ins w = Done (None, w3\<lparr>state := Idling\<rparr>)" if ?ok
    using that run hello by (simp add: ToUpper_OK)
  have bad: "\<exists>e w' proc'. Run NewProcess ins w = Done (Some e, w')
                    \<and> process w' = Some proc'
                    \<and> killCalls proc' = killCalls proc + 1
                    \<and> (kill proc (killCalls proc) = None \<and> wait proc (waitCalls proc) = None
                          \<longrightarrow> waitCalls proc' = waitCalls proc + 1 \<and> state w' = Dead)"
    if "\<not> ?ok"
  proof -
    from that hello obtain e where h: "hello ins w1 = Done (Some e, w3)"
      by (auto simp: ToUpper_OK split: if_splits)
    from killProcess_kills [OF f3(3) f3(1) f3(2)] obtain err w' proc' where
      k: "killProcess w3 = Done (err, w')" "process w' = Some proc'"
         "killCalls proc' = killCalls proc + 1"
         "kill proc (killCalls proc) = None \<and> wait proc (waitCalls proc) = None
                \<longrightarrow> err = None \<and> state w' = Dead \<and> waitCalls proc' = waitCalls proc + 1"
      by blast
    from run h k(1) have "Run NewProcess ins w = Done (Some e, w')" by simp
    with k show ?thesis by blast
  qed
  have iff: "(\<exists>w'. Run NewProcess ins w = Done (None, w')) \<longleftrightarrow> ?ok"
  proof
    assume "\<exists>w'. Run NewProcess ins w = Done (None, w')"
    with bad show ?ok by (cases ?ok) auto
  next
    assume ?ok
    with good show "\<exists>w'. Run NewProcess ins w = Done (None, w')" by blast
  qed
  have idle: "\<forall>w'. Run NewProcess ins w = Done (None, w') \<longrightarrow> state w' = Idling"
  proof (intro allI impI)
    fix w' assume r: "Run NewProcess ins w = Done (None, w')"
    with iff have ?ok by blast
    from good [OF this] r show "state w' = Idling" by simp
  qed
  from iff idle bad np show ?thesis by blast
qed

lemma hello_success:
  assumes "hello ins w = Done (None, w')"
  shows "\<exists>w1 w2 msg. sendCommand (helloCommand (userAgent w)) w = Done (None, w1)
          \<and> selectMessage ins w1 = Done (Received msg, w2)
          \<and> EventType msg = ''hello'' \<and> \<not> Error msg \<and> ToUpper (Message msg) = ''OK''
          \<and> ProtocolVersion msg \<le> 1 \<and> state w' = Idling"
proof -
  from assms obtain err w1 where send: "sendCommand (helloCommand (userAgent w)) w = Done (err, w1)"
    by (auto simp: hello_def thenDo_Done)
  have err: "err = None"
    using assms send by (cases err) (auto simp: hello_def)
  with assms send obtain m e w2 where wait: "waitMessage ins w1 = Done ((m, e), w2)"
    by (auto simp: hello_def thenDo_Done)
  then obtain s where sel: "selectMessage ins w1 = Done (s, w2)"
    and s: "(case s of Received m' \<Rightarrow> m = Some m' \<and> e = None
            | ReceivedNil \<Rightarrow> m = None \<and> e = incomingMessagesError w2
            | TimerFired \<Rightarrow> m = None \<and> e = Some (Timeout (id' w2)))"
    by (auto simp: waitMessage_Done)
  have e: "e = None"
    using assms send err wait by (cases e) (auto simp: hello_def)
  have "m \<noteq> None"
    using assms send err wait e by (cases m) (auto simp: hello_def)
  then obtain msg where m: "m = Some msg" by blast
  with s e have r: "s = Received msg" by (cases s) auto
  from assms send err wait e m
  have "EventType msg = ''hello'' \<and> \<not> Error msg \<and> ToUpper (Message msg) = ''OK''
          \<and> ProtocolVersion msg \<le> 1 \<and> state w' = Idling"
    by (auto simp: hello_def Lock_def Unlock_def thenDo_Done split: if_splits)
  with send err sel r show ?thesis by blast
qed

lemma Run_success:
  assumes "Run NewProcess ins w = Done (None, w')"
  shows "\<exists>w1 w2 w3 msg. runProcess NewProcess w = Done (None, w1)
          \<and> sendCommand (helloCommand (userAgent w1)) w1 = Done (None, w2)
          \<and> selectMessage ins w2 = Done (Received msg, w3)
          \<and> EventType msg = ''hello'' \<and> \<not> Error msg \<and> ToUpper (Message msg) = ''OK''
          \<and> ProtocolVersion msg \<le> 1 \<and> state w' = Idling"
proof -
  from assms obtain err w1 where rp: "runProcess NewProcess w = Done (err, w1)"
    by (auto simp: Run_def thenDo_Done)
  have err: "err = None"
    using assms rp by (cases err) (auto simp: Run_def)
  with assms rp have "hello ins w1 = Done (None, w')"
    by (auto simp: Run_def thenDo_Done split: option.splits)
  from hello_success [OF this] rp err show ?thesis by blast
qed

text \<open>
  Claim C1. (1) Let \<open>Run\<close> have started the process and sent HELLO, and let \<open>msg\<close> be the
  envelope received in reply, on a client with no event channel registered. Then \<open>Run\<close>
  returns without error exactly when \<open>msg\<close> has eventType "hello", error false, a message
  that is "OK" in some capitalisation, and protocolVersion at most 1. When the reply
  violates a condition, \<open>Run\<close> returns an error and \<open>Kill\<close> has been called on the process
  that was spawned; if \<open>Kill\<close> and \<open>Wait\<close> report no error, \<open>Wait\<close> has been called too and
  the state is \<open>Dead\<close>. (2) On any client, when \<open>Run\<close> returns without error the state is
  \<open>Idling\<close>, and the process was started, HELLO was sent and an envelope meeting the
  four conditions was received in reply.
\<close>

theorem Run_handshake:
  "(\<forall>w1 w2 w3 msg.
       runProcess NewProcess w = Done (None, w1)
     \<and> sendCommand (helloCommand (userAgent w1)) w1 = Done (None, w2)
     \<and> selectMessage ins w2 = Done (Received msg, w3)
     \<and> eventChan w = None
     \<longrightarrow> ((\<exists>w'. Run NewProcess ins w = Done (None, w'))
           \<longleftrightarrow> EventType msg = ''hello'' \<and> \<not> Error msg
               \<and> (Message msg = ''OK'' \<or> Message msg = ''Ok'' \<or> Message msg = ''oK''
                    \<or> Message msg = ''ok'')
               \<and> ProtocolVersion msg \<le> 1)
       \<and> (\<not> (EventType msg = ''hello'' \<and> \<not> Error msg
               \<and> (Message msg = ''OK'' \<or> Message msg = ''Ok'' \<or> Message msg = ''oK''
                    \<or> Message msg = ''ok'')
               \<and> ProtocolVersion msg \<le> 1)
            \<longrightarrow> (\<exists>e w' proc proc'. Run NewProcess ins w = Done (Some e, w')
                    \<and> NewProcess (processArgs w) = Inr proc \<and> process w' = Some proc'
                    \<and> killCalls proc' = killCalls proc + 1
                    \<and> (kill proc (killCalls proc) = None \<and> wait proc (waitCalls proc) = None
                          \<longrightarrow> waitCalls proc' = waitCalls proc + 1 \<and> state w' = Dead))))
   \<and> (\<forall>w'. Run NewProcess ins w = Done (None, w')
         \<longrightarrow> state w' = Idling
           \<and> (\<exists>w1 w2 w3 msg.
                 runProcess NewProcess w = Done (None, w1)
               \<and> sendCommand (helloCommand (userAgent w1)) w1 = Done (None, w2)
               \<and> selectMessage ins w2 = Done (Received msg, w3)
               \<and> EventType msg = ''hello'' \<and> \<not> Error msg
               \<and> (Message msg = ''OK'' \<or> Message msg = ''Ok'' \<or> Message msg = ''oK''
                    \<or> Message msg = ''ok'')
               \<and> ProtocolVersion msg \<le> 1))"
proof (rule conjI; intro allI impI)
  fix w1 w2 w3 and msg :: discoveryMessage
  assume a: "runProcess NewProcess w = Done (None, w1)
     \<and> sendCommand (helloCommand (userAgent w1)) w1 = Done (None, w2)
     \<and> selectMessage ins w2 = Done (Received msg, w3)
     \<and> eventChan w = None"
  then have h: "runProcess NewProcess w = Done (None, w1)"
    "sendCommand (helloCommand (userAgent w1)) w1 = Done (None, w2)"
    "selectMessage ins w2 = Done (Received msg, w3)" "eventChan w = None"
    by simp_all
  from Run_after_reply [OF h]
  show "((\<exists>w'. Run NewProcess ins w = Done (None, w'))
           \<longleftrightarrow> EventType msg = ''hello'' \<and> \<not> Error msg
               \<and> (Message msg = ''OK'' \<or> Message msg = ''Ok'' \<or> Message msg = ''oK''
                    \<or> Message msg = ''ok'')
               \<and> ProtocolVersion msg \<le> 1)
       \<and> (\<not> (EventType msg = ''hello'' \<and> \<not> Error msg
               \<and> (Message msg = ''OK'' \<or> Message msg = ''Ok'' \<or> Message msg = ''oK''
                    \<or> Message msg = ''ok'')
               \<and> ProtocolVersion msg \<le> 1)
            \<longrightarrow> (\<exists>e w' proc proc'. Run NewProcess ins w = Done (Some e, w')
                    \<and> NewProcess (processArgs w) = Inr proc \<and> process w' = Some proc'
                    \<and> killCalls proc' = killCalls proc + 1
                    \<and> (kill proc (killCalls proc) = None \<and> wait proc (waitCalls proc) = None
                          \<longrightarrow> waitCalls proc' = waitCalls proc + 1 \<and> state w' = Dead)))"
    by blast
next
  fix w'
  assume "Run NewProcess ins w = Done (None, w')"
  from Run_success [OF this]
  show "state w' = Idling
           \<and> (\<exists>w1 w2 w3 msg.
                 runProcess NewProcess w = Done (None, w1)
               \<and> sendCommand (helloCommand (userAgent w1)) w1 = Done (None, w2)
               \<and> selectMessage ins w2 = Done (Received msg, w3)
               \<and> EventType msg = ''hello'' \<and> \<not> Error msg
               \<and> (Message msg = ''OK'' \<or> Message msg = ''Ok'' \<or> Message msg = ''oK''
                    \<or> Message msg = ''ok'')
               \<and> ProtocolVersion msg \<le> 1)"
    unfolding ToUpper_OK by blast
qed

text \<open>
  On the new example client, the reply \<open>{"eventType": "hello", "message": "OK"}\<close> makes
  \<open>Run\<close> succeed; the same reply with protocolVersion 2 makes it fail, with the process
  killed and waited for and the state \<open>Dead\<close>.
\<close>

theorem Run_handshake_witness:
  "runProcess (spawn okProcess) freshClient
      = Done (None, idleClient\<lparr>outgoingCommandsPipe := Some okWriter, state := Alive\<rparr>)
   \<and> sendCommand (helloCommand ''ua'') (idleClient\<lparr>outgoingCommandsPipe := Some okWriter, state := Alive\<rparr>)
      = Done (None, idleClient\<lparr>state := Alive\<rparr>)
   \<and> selectMessage [Value (okReply ''hello'')] (idleClient\<lparr>state := Alive\<rparr>)
      = Done (Received (okReply ''hello''), idleClient\<lparr>state := Alive\<rparr>)
   \<and> selectMessage [Value ((okReply ''hello'')\<lparr>ProtocolVersion := 2\<rparr>)] (idleClient\<lparr>state := Alive\<rparr>)
      = Done (Received ((okReply ''hello'')\<lparr>ProtocolVersion := 2\<rparr>), idleClient\<lparr>state := Alive\<rparr>)
   \<and> eventChan freshClient = None
   \<and> (\<exists>w'. Run (spawn okProcess) [Value (okReply ''hello'')] freshClient = Done (None, w'))
   \<and> (\<exists>e w' proc'. Run (spawn okProcess) [Value ((okReply ''hello'')\<lparr>ProtocolVersion := 2\<rparr>)] freshClient
                        = Done (Some e, w')
         \<and> process w' = Some proc' \<and> killCalls proc' = 1 \<and> waitCalls proc' = 1 \<and> state w' = Dead)"
proof -
  have h1: "runProcess (spawn okProcess) freshClient
      = Done (None, idleClient\<lparr>outgoingCommandsPipe := Some okWriter, state := Alive\<rparr>)"
    by (simp add: eval_defs)
  have h2: "sendCommand (helloCommand (userAgent (idleClient\<lparr>outgoingCommandsPipe := Some okWriter, state := Alive\<rparr>)))
               (idleClient\<lparr>outgoingCommandsPipe := Some okWriter, state := Alive\<rparr>)
      = Done (None, idleClient\<lparr>state := Alive\<rparr>)"
    by (simp add: eval_defs)
  have h3: "selectMessage [Value (okReply ''hello'')] (idleClient\<lparr>state := Alive\<rparr>)
      = Done (Received (okReply ''hello''), idleClient\<lparr>state := Alive\<rparr>)"
    by (simp add: eval_defs)
  have h3': "selectMessage [Value ((okReply ''hello'')\<lparr>ProtocolVersion := 2\<rparr>)] (idleClient\<lparr>state := Alive\<rparr>)
      = Done (Received ((okReply ''hello'')\<lparr>ProtocolVersion := 2\<rparr>), idleClient\<lparr>state := Alive\<rparr>)"
    by (simp add: eval_defs)
  have h4: "eventChan freshClient = None"
    by (simp add: eval_defs)
  have ua: "userAgent (idleClient\<lparr>outgoingCommandsPipe := Some okWriter, state := Alive\<rparr>) = ''ua''"
    by (simp add: idleClient_def)
  have good: "\<exists>w'. Run (spawn okProcess) [Value (okReply ''hello'')] freshClient = Done (None, w')"
    using Run_handshake [of "spawn okProcess" freshClient "[Value (okReply ''hello'')]",
            THEN conjunct1, rule_format, OF conjI [OF h1 conjI [OF h2 conjI [OF h3 h4]]]]
    by (simp add: okReply_def)
  have bad: "\<exists>e w' proc'. Run (spawn okProcess) [Value ((okReply ''hello'')\<lparr>ProtocolVersion := 2\<rparr>)] freshClient
                        = Done (Some e, w')
         \<and> process w' = Some proc' \<and> killCalls proc' = 1 \<and> waitCalls proc' = 1 \<and> state w' = Dead"
    using Run_handshake [of "spawn okProcess" freshClient
              "[Value ((okReply ''hello'')\<lparr>ProtocolVersion := 2\<rparr>)]",
            THEN conjunct1, rule_format, OF conjI [OF h1 conjI [OF h2 conjI [OF h3' h4]]]]
    by (simp add: okReply_def okProcess_def spawn_def)
  from h1 h2 h3 h3' h4 ua good bad show ?thesis by simp
qed

lemma hello_Done_None:
  assumes "hello ins w = Done (None, w')"
  shows "\<exists>pipe pipe'. outgoingCommandsPipe w = Some pipe \<and> outgoingCommandsPipe w' = Some pipe'
          \<and> received pipe' = received pipe @ helloCommand (userAgent w)"
proof -
  from assms obtain err w1 where send: "sendCommand (helloCommand (userAgent w)) w = Done (err, w1)"
    and rest: "(case err of
            Some e \<Rightarrow> Done (Some e, w1)
          | None \<Rightarrow>
              thenDo (waitMessage ins w1) (\<lambda>((msg, err), w).
                case err of
                  Some e \<Rightarrow> Done (Some (Calling ''HELLO'' e), w)
                | None \<Rightarrow>
                    (case msg of
                       None \<Rightarrow> Panic ''nil pointer dereference''
                     | Some msg \<Rightarrow>
                         if EventType msg \<noteq> ''hello''
                           then Done (Some (EventOutOfSync ''hello'' (EventType msg)), w)
                         else if Error msg
                           then Done (Some (CommandFailed (Message msg)), w)
                         else if ToUpper (Message msg) \<noteq> ''OK''
                           then Done (Some (CommunicationOutOfSync (Message msg)), w)
                         else if ProtocolVersion msg > 1
                           then Done (Some (ProtocolNotSupported (ProtocolVersion msg)), w)
                         else thenDo (Lock w) (\<lambda>w.
                                Done (None, Unlock (w\<lparr>state := Idling\<rparr>)))))) = Done (None, w')"
    by (auto simp: hello_def thenDo_Done)
  from rest have err: "err = None" by (cases err) auto
  with rest obtain m e w2 where wait: "waitMessage ins w1 = Done ((m, e), w2)"
    and fin: "(case e of
                  Some e \<Rightarrow> Done (Some (Calling ''HELLO'' e), w2)
                | None \<Rightarrow>
                    (case m of
                       None \<Rightarrow> Panic ''nil pointer dereference''
                     | Some msg \<Rightarrow>
                         if EventType msg \<noteq> ''hello''
                           then Done (Some (EventOutOfSync ''hello'' (EventType msg)), w2)
                         else if Error msg
                           then Done (Some (CommandFailed (Message msg)), w2)
                         else if ToUpper (Message msg) \<noteq> ''OK''
                           then Done (Some (CommunicationOutOfSync (Message msg)), w2)
                         else if ProtocolVersion msg > 1
                           then Done (Some (ProtocolNotSupported (ProtocolVersion msg)), w2)
                         else thenDo (Lock w2) (\<lambda>w.
                                Done (None, Unlock (w\<lparr>state := Idling\<rparr>))))) = Done (None, w')"
    by (auto simp: thenDo_Done)
  from fin have p': "outgoingCommandsPipe w' = outgoingCommandsPipe w2"
    by (auto simp: Lock_def Unlock_def thenDo_Done split: option.splits if_splits)
  from wait obtain s where "selectMessage ins w1 = Done (s, w2)"
    by (auto simp: waitMessage_Done)
  from selectMessage_frame [OF this] have p2: "outgoingCommandsPipe w2 = outgoingCommandsPipe w1"
    by simp
  from sendCommand_Done [OF send] err obtain pipe pipe' where
    "outgoingCommandsPipe w = Some pipe" "sendData (helloCommand (userAgent w)) pipe = Some (Done (None, pipe'))"
    "outgoingCommandsPipe w1 = Some pipe'"
    by auto
  with sendData_received [of "helloCommand (userAgent w)" pipe pipe'] p' p2
  show ?thesis by simp
qed

text \<open>
  Claim C2, as the code has it. After every \<open>Run\<close> that returns without error, what the
  standard input of the spawned process has received is what it held when the pipe was
  handed out (nothing, for a new process) followed by exactly the line
  \<open>HELLO 1 "arduino-cli <agent>"\<close> and a newline, where \<open><agent>\<close> is the user agent of the
  client. The word after the opening quote is the constant "arduino-cli", not the
  identifier of the client.
\<close>

theorem Run_sends_hello:
  assumes "Run NewProcess ins w = Done (None, w')"
  shows "\<exists>proc stdin pipe'. NewProcess (processArgs w) = Inr proc \<and> stdinPipe proc = Inr stdin
           \<and> outgoingCommandsPipe w' = Some pipe'
           \<and> received pipe' = received stdin @ helloCommand (userAgent w)"
proof -
  from assms obtain err w1 where rp: "runProcess NewProcess w = Done (err, w1)"
    and rest: "(case err of
         Some e \<Rightarrow> Done (Some e, w1)
       | None \<Rightarrow>
           thenDo (hello ins w1) (\<lambda>(err, w).
             case err of
               None \<Rightarrow> Done (None, w)
             | Some e \<Rightarrow> thenDo (killProcess w) (\<lambda>(killErr, w). Done (Some e, w)))) = Done (None, w')"
    by (auto simp: Run_def thenDo_Done)
  from rest have err: "err = None" by (cases err) auto
  with rest have h: "hello ins w1 = Done (None, w')"
    by (auto simp: thenDo_Done split: option.splits)
  from runProcess_Done [OF rp [unfolded err]] obtain proc stdin where
    np: "NewProcess (processArgs w) = Inr proc" "stdinPipe proc = Inr stdin"
    and w1: "outgoingCommandsPipe w1 = Some stdin" "userAgent w1 = userAgent w"
    by auto
  from hello_Done_None [OF h] w1 np show ?thesis by auto
qed

text \<open>The successful \<open>Run\<close> of the new example client sends the line for agent "ua".\<close>

theorem Run_sends_hello_witness:
  "Run (spawn okProcess) [Value (okReply ''hello'')] freshClient = Done (None, idleClient)
   \<and> userAgent freshClient = ''ua''
   \<and> map_option received (outgoingCommandsPipe idleClient) = Some (helloCommand ''ua'')"
proof -
  have r: "Run (spawn okProcess) [Value (okReply ''hello'')] freshClient = Done (None, idleClient)"
    by (simp add: eval_defs)
  have f: "stdinPipe okProcess = Inr okWriter" "received okWriter = []" "userAgent freshClient = ''ua''"
    by (simp_all add: eval_defs)
  from Run_sends_hello [OF r] f r show ?thesis by (auto simp: spawn_def)
qed

text \<open>
  The claim as stated fails: the client "serial-discovery" with agent "ua" runs
  successfully, and its subprocess has received \<open>HELLO 1 "arduino-cli ua"\<close>, which is not
  \<open>HELLO 1 "serial-discovery ua"\<close>.
\<close>

theorem Run_hello_without_client_id:
  \<open>result (Run (spawn okProcess) [Value (okReply ''hello'')] freshClient) = Some (None, idleClient)
   \<and> id' freshClient = ''serial-discovery'' \<and> userAgent freshClient = ''ua''
   \<and> map_option received (outgoingCommandsPipe idleClient)
        = Some (''HELLO 1 "arduino-cli ua"'' @ [CHR 0x0A])
   \<and> map_option received (outgoingCommandsPipe idleClient)
        \<noteq> Some (''HELLO 1 "serial-discovery ua"'' @ [CHR 0x0A])\<close>
  by (simp add: eval_defs)

subsection \<open>List\<close>

text \<open>
  Claim C8. When the LIST command has been sent and the envelope received in reply has
  eventType "list" and error false, \<open>List\<close> returns the \<open>ports\<close> field of that envelope as
  it is (the same sequence in the same order; an absent field is the nil slice, which
  is an empty sequence), with no error, and the state is the one before the call. On
  every return of \<open>List\<close> the state is the one before the call, unless the decode loop
  has ended meanwhile and set it to \<open>Dead\<close>, which \<open>List\<close> reports as its failure.
\<close>

theorem List_returns_ports:
  "(\<forall>w1 w2 msg.
       sendCommand (''LIST'' @ [CHR 0x0A]) w = Done (None, w1)
     \<and> selectMessage ins w1 = Done (Received msg, w2)
     \<and> EventType msg = ''list'' \<and> \<not> Error msg
     \<longrightarrow> List ins w = Done ((Ports msg, None), w2) \<and> state w2 = state w)
   \<and> (\<forall>r w'. List ins w = Done (r, w')
         \<longrightarrow> state w' = state w
           \<or> (state w' = Dead \<and> snd r = Some (Calling ''LIST'' (the (incomingMessagesError w')))))"
proof (intro conjI allI impI)
  fix w1 w2 msg
  assume a: "sendCommand (''LIST'' @ [CHR 0x0A]) w = Done (None, w1)
     \<and> selectMessage ins w1 = Done (Received msg, w2)
     \<and> EventType msg = ''list'' \<and> \<not> Error msg"
  then have wait: "waitMessage ins w1 = Done ((Some msg, None), w2)"
    by (simp add: waitMessage_Done)
  with a show "List ins w = Done ((Ports msg, None), w2)"
    by (simp add: List_def)
  from a sendCommand_frame [of _ w None w1] have "state w1 = state w" by blast
  moreover from a selectMessage_state [of ins w1 "Received msg" w2] have "state w2 = state w1" by auto
  ultimately show "state w2 = state w" by simp
next
  fix r w'
  assume L: "List ins w = Done (r, w')"
  then obtain err w1 where send: "sendCommand (''LIST'' @ [CHR 0x0A]) w = Done (err, w1)"
    by (auto simp: List_def thenDo_Done)
  from sendCommand_frame [OF send] have s1: "state w1 = state w" by blast
  show "state w' = state w
           \<or> (state w' = Dead \<and> snd r = Some (Calling ''LIST'' (the (incomingMessagesError w'))))"
  proof (cases err)
    case (Some e)
    with L send s1 show ?thesis by (simp add: List_def)
  next
    case None
    with L send obtain m e where wait: "waitMessage ins w1 = Done ((m, e), w')"
      by (auto simp: List_def thenDo_Done split: option.splits if_splits)
    then obtain s where sel: "selectMessage ins w1 = Done (s, w')"
      and s: "(case s of Received m' \<Rightarrow> m = Some m' \<and> e = None
            | ReceivedNil \<Rightarrow> m = None \<and> e = incomingMessagesError w'
            | TimerFired \<Rightarrow> m = None \<and> e = Some (Timeout (id' w')))"
      by (auto simp: waitMessage_Done)
    from selectMessage_state [OF sel] show ?thesis
    proof
      assume "state w' = state w1 \<and> incomingMessagesError w' = incomingMessagesError w1"
      with s1 show ?thesis by simp
    next
      assume d: "s = ReceivedNil \<and> state w' = Dead \<and> incomingMessagesError w' \<noteq> None"
      with s have "m = None" "e = incomingMessagesError w'" by auto
      with d L send None wait show ?thesis by (auto simp: List_def)
    qed
  qed
qed

text \<open>
  On the idle example client, a "list" reply with one port makes \<open>List\<close> return that
  port, and a "list" reply without a \<open>ports\<close> field makes it return the nil slice and no
  error; the state stays \<open>Idling\<close>.
\<close>

theorem List_returns_ports_witness:
  "sendCommand (''LIST'' @ [CHR 0x0A]) idleClient = Done (None, sentLine ''LIST'' idleClient)
   \<and> selectMessage [Value ((okReply ''list'')\<lparr>Ports := Some [Some examplePort]\<rparr>)] (sentLine ''LIST'' idleClient)
       = Done (Received ((okReply ''list'')\<lparr>Ports := Some [Some examplePort]\<rparr>), sentLine ''LIST'' idleClient)
   \<and> selectMessage [Value (okReply ''list'')] (sentLine ''LIST'' idleClient)
       = Done (Received (okReply ''list''), sentLine ''LIST'' idleClient)
   \<and> List [Value ((okReply ''list'')\<lparr>Ports := Some [Some examplePort]\<rparr>)] idleClient
       = Done ((Some [Some examplePort], None), sentLine ''LIST'' idleClient)
   \<and> List [Value (okReply ''list'')] idleClient = Done ((None, None), sentLine ''LIST'' idleClient)
   \<and> state (sentLine ''LIST'' idleClient) = state idleClient"
proof -
  have s: "sendCommand (''LIST'' @ [CHR 0x0A]) idleClient = Done (None, sentLine ''LIST'' idleClient)"
    by (simp add: eval_defs)
  have r1: "selectMessage [Value ((okReply ''list'')\<lparr>Ports := Some [Some examplePort]\<rparr>)] (sentLine ''LIST'' idleClient)
       = Done (Received ((okReply ''list'')\<lparr>Ports := Some [Some examplePort]\<rparr>), sentLine ''LIST'' idleClient)"
    by (simp add: eval_defs)
  have r2: "selectMessage [Value (okReply ''list'')] (sentLine ''LIST'' idleClient)
       = Done (Received (okReply ''list''), sentLine ''LIST'' idleClient)"
    by (simp add: eval_defs)
  have t1: "EventType ((okReply ''list'')\<lparr>Ports := Some [Some examplePort]\<rparr>) = ''list''"
      "\<not> Error ((okReply ''list'')\<lparr>Ports := Some [Some examplePort]\<rparr>)"
      "EventType (okReply ''list'') = ''list''" "\<not> Error (okReply ''list'')"
      "Ports (okReply ''list'') = None"
    by (simp_all add: okReply_def)
  from List_returns_ports [of idleClient "[Value ((okReply ''list'')\<lparr>Ports := Some [Some examplePort]\<rparr>)]",
        THEN conjunct1, rule_format, of "sentLine ''LIST'' idleClient" _ "sentLine ''LIST'' idleClient"]
    s r1 t1
  have a: "List [Value ((okReply ''list'')\<lparr>Ports := Some [Some examplePort]\<rparr>)] idleClient
       = Done ((Some [Some examplePort], None), sentLine ''LIST'' idleClient)
      \<and> state (sentLine ''LIST'' idleClient) = state idleClient"
    by simp
  from List_returns_ports [of idleClient "[Value (okReply ''list'')]",
        THEN conjunct1, rule_format, of "sentLine ''LIST'' idleClient" _ "sentLine ''LIST'' idleClient"]
    s r2 t1
  have b: "List [Value (okReply ''list'')] idleClient = Done ((None, None), sentLine ''LIST'' idleClient)"
    by simp
  from s r1 r2 a b show ?thesis by simp
qed

subsection \<open>Stop and the event channel\<close>

lemma selectMessage_events:
  assumes "selectMessage ins w = Done (s, w')"
  shows "\<forall>k. \<exists>evs. sent (eventChans w' ! k) = sent (eventChans w ! k) @ evs \<and> onlyPortEvents evs"
  using selectMessage_Done [OF assms]
proof (elim disjE exE conjE)
  assume "w' = w\<lparr>stdout := stdout w @ ins\<rparr>"
  then show ?thesis by (simp add: onlyPortEvents_def)
next
  fix h rest w1 msg
  assume loop: "jsonDecodeLoop (stdout w @ ins) h w = Done (rest, w1)"
    and "w' = w1\<lparr>stdout := rest, messageChans := (messageChans w1)[h := (messageChans w1 ! h)\<lparr>offered := None\<rparr>]\<rparr>"
  with jsonDecodeLoop_events [OF loop] show ?thesis by simp
next
  fix h rest w1
  assume loop: "jsonDecodeLoop (stdout w @ ins) h w = Done (rest, w1)"
    and "w' = w1\<lparr>stdout := rest\<rparr>" "s = ReceivedNil"
  with jsonDecodeLoop_events [OF loop] show ?thesis by simp
next
  fix h rest w1
  assume loop: "jsonDecodeLoop (stdout w @ ins) h w = Done (rest, w1)"
    and "w' = w1\<lparr>stdout := rest\<rparr>" "s = TimerFired"
  with jsonDecodeLoop_events [OF loop] show ?thesis by simp
qed

text \<open>A round trip: the command is sent and the select has returned.\<close>

lemma roundTrip_frame:
  assumes "sendCommand command w = Done (err, w1)" and "selectMessage ins w1 = Done (s, w2)"
  shows "id' w2 = id' w \<and> process w2 = process w \<and> eventChan w2 = eventChan w
       \<and> userAgent w2 = userAgent w \<and> incomingMessagesChan w2 = incomingMessagesChan w
       \<and> length (eventChans w2) = length (eventChans w)
       \<and> (\<forall>k. closed (eventChans w2 ! k) = closed (eventChans w ! k))
       \<and> (\<forall>k. \<exists>evs. sent (eventChans w2 ! k) = sent (eventChans w ! k) @ evs \<and> onlyPortEvents evs)
       \<and> ((state w2 = state w \<and> incomingMessagesError w2 = incomingMessagesError w)
            \<or> (s = ReceivedNil \<and> state w2 = Dead \<and> incomingMessagesError w2 \<noteq> None))"
  using sendCommand_frame [OF assms(1)] selectMessage_frame [OF assms(2)]
    selectMessage_events [OF assms(2)] selectMessage_state [OF assms(2)]
  by simp


lemma Stop_Done:
  assumes "Stop ins w = Done (r, w')"
  shows "(\<exists>e. sendCommand (''STOP'' @ [CHR 0x0A]) w = Done (Some e, w') \<and> r = Some e)
       \<or> (\<exists>w1 s e. sendCommand (''STOP'' @ [CHR 0x0A]) w = Done (None, w1)
              \<and> selectMessage ins w1 = Done (s, w') \<and> r = Some e
              \<and> (s = ReceivedNil \<longrightarrow> e = Calling ''STOP'' (the (incomingMessagesError w'))))
       \<or> (\<exists>w1 msg w2 w3. sendCommand (''STOP'' @ [CHR 0x0A]) w = Done (None, w1)
              \<and> selectMessage ins w1 = Done (Received msg, w2)
              \<and> EventType msg = ''stop'' \<and> \<not> Error msg \<and> ToUpper (Message msg) = ''OK''
              \<and> statusMutex w2 = Free
              \<and> stopSync (w2\<lparr>statusMutex := Caller\<rparr>) = Done w3
              \<and> r = None \<and> w' = w3\<lparr>state := Idling, statusMutex := Free\<rparr>)"
proof -
  from assms obtain err w1 where send: "sendCommand (''STOP'' @ [CHR 0x0A]) w = Done (err, w1)"
    by (auto simp: Stop_def thenDo_Done)
  show ?thesis
  proof (cases err)
    case (Some e)
    with assms send show ?thesis by (auto simp: Stop_def)
  next
    case None
    with assms send obtain m e w2 where wait: "waitMessage ins w1 = Done ((m, e), w2)"
      by (auto simp: Stop_def thenDo_Done)
    then obtain s where sel: "selectMessage ins w1 = Done (s, w2)"
      and s: "(case s of Received m' \<Rightarrow> m = Some m' \<and> e = None
            | ReceivedNil \<Rightarrow> m = None \<and> e = incomingMessagesError w2
            | TimerFired \<Rightarrow> m = None \<and> e = Some (Timeout (id' w2)))"
      by (auto simp: waitMessage_Done)
    show ?thesis
    proof (cases s)
      case (Received msg)
      with s have me: "m = Some msg" "e = None" by simp_all
      show ?thesis
      proof (cases "EventType msg = ''stop'' \<and> \<not> Error msg \<and> ToUpper (Message msg) = ''OK''")
        case True
        with assms send None wait me obtain w3 where
          "statusMutex w2 = Free" "stopSync (w2\<lparr>statusMutex := Caller\<rparr>) = Done w3"
          "r = None" "w' = w3\<lparr>state := Idling, statusMutex := Free\<rparr>"
          by (auto simp: Stop_def Lock_def Unlock_def thenDo_Done split: if_splits)
        with send None sel Received True show ?thesis by auto
      next
        case False
        with assms send None wait me have "w' = w2" "\<exists>e. r = Some e"
          by (auto simp: Stop_def split: if_splits)
        with send None sel Received show ?thesis by auto
      qed
    next
      case ReceivedNil
      with s have me: "m = None" "e = incomingMessagesError w2" by simp_all
      from selectMessage_state [OF sel] ReceivedNil selectMessage_Done [OF sel]
      have "incomingMessagesError w2 \<noteq> None \<or> True" by simp
      show ?thesis
      proof (cases "incomingMessagesError w2")
        case Nn: None
        with assms send None wait me show ?thesis by (simp add: Stop_def)
      next
        case (Some er)
        with assms send None wait me have "w' = w2" "r = Some (Calling ''STOP'' er)"
          by (auto simp: Stop_def)
        with send None sel ReceivedNil Some show ?thesis by auto
      qed
    next
      case TimerFired
      with s have me: "m = None" "e = Some (Timeout (id' w2))" by simp_all
      with assms send None wait have "w' = w2" "\<exists>e. r = Some e"
        by (auto simp: Stop_def)
      with send None sel TimerFired show ?thesis by auto
    qed
  qed
qed

text \<open>
  Claim C3, as the code has it. \<open>Stop\<close> flushes the event channel only on its success
  path. When the STOP command has been sent and the reply is a "stop" envelope without
  error and with message "OK", and the registered event channel is open and has room,
  \<open>Stop\<close> returns without error, the state is \<open>Idling\<close>, no channel is registered any more,
  and the channel that was registered has received one more event, the synthetic
  "stop" event, and is closed. When \<open>Stop\<close> returns an error, the same channel is still
  registered, no channel has been closed, the channels have received nothing but "add"
  and "remove" events from the decode loop, and \<open>Stop\<close> has not set the state.
\<close>

theorem Stop_flushes_on_success:
  "(\<forall>w1 w2 msg h.
       sendCommand (''STOP'' @ [CHR 0x0A]) w = Done (None, w1)
     \<and> selectMessage ins w1 = Done (Received msg, w2)
     \<and> EventType msg = ''stop'' \<and> \<not> Error msg \<and> ToUpper (Message msg) = ''OK''
     \<and> statusMutex w2 = Free \<and> eventChan w2 = Some h \<and> h < length (eventChans w2)
     \<and> \<not> closed (eventChans w2 ! h) \<and> 0 < room (eventChans w2 ! h)
     \<longrightarrow> (\<exists>w'. Stop ins w = Done (None, w') \<and> state w' = Idling \<and> eventChan w' = None
              \<and> closed (eventChans w' ! h)
              \<and> sent (eventChans w' ! h)
                   = sent (eventChans w2 ! h) @ [Event ''stop'' None (id' w)]))
   \<and> (\<forall>e w'. Stop ins w = Done (Some e, w')
         \<longrightarrow> eventChan w' = eventChan w
           \<and> (\<forall>k. closed (eventChans w' ! k) = closed (eventChans w ! k))
           \<and> (\<forall>k. \<exists>evs. sent (eventChans w' ! k) = sent (eventChans w ! k) @ evs
                        \<and> onlyPortEvents evs)
           \<and> (state w' = state w
                \<or> (state w' = Dead \<and> e = Calling ''STOP'' (the (incomingMessagesError w')))))"
proof (rule conjI; intro allI impI)
  fix w1 w2 msg h
  assume a: "sendCommand (''STOP'' @ [CHR 0x0A]) w = Done (None, w1)
     \<and> selectMessage ins w1 = Done (Received msg, w2)
     \<and> EventType msg = ''stop'' \<and> \<not> Error msg \<and> ToUpper (Message msg) = ''OK''
     \<and> statusMutex w2 = Free \<and> eventChan w2 = Some h \<and> h < length (eventChans w2)
     \<and> \<not> closed (eventChans w2 ! h) \<and> 0 < room (eventChans w2 ! h)"
  then have wait: "waitMessage ins w1 = Done ((Some msg, None), w2)"
    by (simp add: waitMessage_Done)
  from a have id: "id' w2 = id' w"
    using roundTrip_frame [of "''STOP'' @ [CHR 0x0A]" w None w1 ins "Received msg" w2] by blast
  let ?w = "w2\<lparr>statusMutex := Caller\<rparr>"
  from a have "stopSync ?w = Done (?w\<lparr>eventChans := (eventChans ?w)[h := (eventChans ?w ! h)
                       \<lparr>sent := sent (eventChans ?w ! h) @ [Event ''stop'' None (id' ?w)],
                        room := room (eventChans ?w ! h) - 1, closed := True\<rparr>],
                    eventChan := None\<rparr>)"
    by (intro stopSync_flush) simp_all
  with a wait id show "\<exists>w'. Stop ins w = Done (None, w') \<and> state w' = Idling \<and> eventChan w' = None
              \<and> closed (eventChans w' ! h)
              \<and> sent (eventChans w' ! h)
                   = sent (eventChans w2 ! h) @ [Event ''stop'' None (id' w)]"
    by (simp add: Stop_def Lock_def Unlock_def)
next
  fix e w'
  assume S: "Stop ins w = Done (Some e, w')"
  from Stop_Done [OF S]
  have "(\<exists>e'. sendCommand (''STOP'' @ [CHR 0x0A]) w = Done (Some e', w'))
      \<or> (\<exists>w1 s. sendCommand (''STOP'' @ [CHR 0x0A]) w = Done (None, w1)
              \<and> selectMessage ins w1 = Done (s, w')
              \<and> (s = ReceivedNil \<longrightarrow> e = Calling ''STOP'' (the (incomingMessagesError w'))))"
    by auto
  then show "eventChan w' = eventChan w
           \<and> (\<forall>k. closed (eventChans w' ! k) = closed (eventChans w ! k))
           \<and> (\<forall>k. \<exists>evs. sent (eventChans w' ! k) = sent (eventChans w ! k) @ evs
                        \<and> onlyPortEvents evs)
           \<and> (state w' = state w
                \<or> (state w' = Dead \<and> e = Calling ''STOP'' (the (incomingMessagesError w'))))"
  proof
    assume "\<exists>e'. sendCommand (''STOP'' @ [CHR 0x0A]) w = Done (Some e', w')"
    then obtain e' where "sendCommand (''STOP'' @ [CHR 0x0A]) w = Done (Some e', w')" by blast
    from sendCommand_frame [OF this] show ?thesis
      by (simp add: onlyPortEvents_def)
  next
    assume "\<exists>w1 s. sendCommand (''STOP'' @ [CHR 0x0A]) w = Done (None, w1)
              \<and> selectMessage ins w1 = Done (s, w')
              \<and> (s = ReceivedNil \<longrightarrow> e = Calling ''STOP'' (the (incomingMessagesError w')))"
    then obtain w1 s where send: "sendCommand (''STOP'' @ [CHR 0x0A]) w = Done (None, w1)"
      and sel: "selectMessage ins w1 = Done (s, w')"
      and e: "s = ReceivedNil \<longrightarrow> e = Calling ''STOP'' (the (incomingMessagesError w'))"
      by blast
    from roundTrip_frame [OF send sel] e show ?thesis by auto
  qed
qed

text \<open>On the syncing example client a successful \<open>Stop\<close> flushes channel 0.\<close>

theorem Stop_flushes_on_success_witness:
  "sendCommand (''STOP'' @ [CHR 0x0A]) syncingClient = Done (None, sentLine ''STOP'' syncingClient)
   \<and> selectMessage [Value (okReply ''stop'')] (sentLine ''STOP'' syncingClient)
       = Done (Received (okReply ''stop''), sentLine ''STOP'' syncingClient)
   \<and> eventChan (sentLine ''STOP'' syncingClient) = Some 0
   \<and> (\<exists>w'. Stop [Value (okReply ''stop'')] syncingClient = Done (None, w') \<and> state w' = Idling
          \<and> eventChan w' = None \<and> closed (eventChans w' ! 0)
          \<and> sent (eventChans w' ! 0) = [Event ''stop'' None ''serial-discovery''])"
proof -
  have s: "sendCommand (''STOP'' @ [CHR 0x0A]) syncingClient = Done (None, sentLine ''STOP'' syncingClient)"
    by (simp add: eval_defs)
  have r: "selectMessage [Value (okReply ''stop'')] (sentLine ''STOP'' syncingClient)
       = Done (Received (okReply ''stop''), sentLine ''STOP'' syncingClient)"
    by (simp add: eval_defs)
  have f: "EventType (okReply ''stop'') = ''stop''" "\<not> Error (okReply ''stop'')"
      "ToUpper (Message (okReply ''stop'')) = ''OK''"
      "statusMutex (sentLine ''STOP'' syncingClient) = Free"
      "eventChan (sentLine ''STOP'' syncingClient) = Some 0"
      "0 < length (eventChans (sentLine ''STOP'' syncingClient))"
      "\<not> closed (eventChans (sentLine ''STOP'' syncingClient) ! 0)"
      "0 < room (eventChans (sentLine ''STOP'' syncingClient) ! 0)"
      "sent (eventChans (sentLine ''STOP'' syncingClient) ! 0) = []"
      "id' syncingClient = ''serial-discovery''"
    by (simp_all add: eval_defs)
  from Stop_flushes_on_success [of syncingClient "[Value (okReply ''stop'')]", THEN conjunct1,
         rule_format, of "sentLine ''STOP'' syncingClient" "okReply ''stop''"
           "sentLine ''STOP'' syncingClient" 0] s r f
  have "\<exists>w'. Stop [Value (okReply ''stop'')] syncingClient = Done (None, w') \<and> state w' = Idling
          \<and> eventChan w' = None \<and> closed (eventChans w' ! 0)
          \<and> sent (eventChans w' ! 0) = [Event ''stop'' None ''serial-discovery'']"
    by simp
  with s r f show ?thesis by simp
qed

text \<open>
  The claim as stated fails: on the syncing example client, \<open>Stop\<close> with a reply that has
  \<open>"error": true\<close> returns the failure, and the event channel is still registered, open
  and empty: no "stop" event was pushed; the state is still \<open>Syncing\<close>.
\<close>

theorem Stop_failure_leaves_channel_open:
  "result (Stop [Value (errorReply ''stop'')] syncingClient)
      = Some (Some (CommandFailed ''failed''), sentLine ''STOP'' syncingClient)
   \<and> eventChan syncingClient = Some 0
   \<and> eventChan (sentLine ''STOP'' syncingClient) = Some 0
   \<and> eventChans (sentLine ''STOP'' syncingClient) = [\<lparr>sent = [], room = 2, closed = False\<rparr>]
   \<and> state (sentLine ''STOP'' syncingClient) = Syncing"
  by (simp add: eval_defs)

subsection \<open>Timeouts\<close>





subsection \<open>Quit\<close>





subsection \<open>The decode loop and port events\<close>










subsection \<open>Replacing the event channel\<close>

lemma StartSync_Done:
  assumes "StartSync n ins w = Done (r, w')"
  shows "(fst r = None \<and> eventChan w' = eventChan w)
       \<or> (\<exists>w1 msg w2 w3. sendCommand (''START_SYNC'' @ [CHR 0x0A]) (w\<lparr>statusMutex := Caller\<rparr>) = Done (None, w1)
              \<and> selectMessage ins w1 = Done (Received msg, w2)
              \<and> stopSync (w2\<lparr>state := Syncing\<rparr>) = Done w3 \<and> 0 \<le> n
              \<and> r = (Some (length (eventChans w3)), None)
              \<and> w' = w3\<lparr>eventChans := eventChans w3 @ [\<lparr>sent = [], room = nat n, closed = False\<rparr>],
                        eventChan := Some (length (eventChans w3)), statusMutex := Free\<rparr>)"
proof -
  from assms have free: "statusMutex w = Free"
    by (auto simp: StartSync_def Lock_def thenDo_Done split: if_splits)
  let ?w0 = "w\<lparr>statusMutex := Caller\<rparr>"
  from assms free obtain err w1 where send: "sendCommand (''START_SYNC'' @ [CHR 0x0A]) ?w0 = Done (err, w1)"
    by (auto simp: StartSync_def Lock_def thenDo_Done)
  from sendCommand_frame [OF send] have e1: "eventChan w1 = eventChan w" by simp
  show ?thesis
  proof (cases err)
    case (Some e)
    with assms free send e1 show ?thesis by (auto simp: StartSync_def Lock_def Unlock_def)
  next
    case None
    with assms free send obtain m e w2 where wait: "waitMessage ins w1 = Done ((m, e), w2)"
      by (auto simp: StartSync_def Lock_def thenDo_Done)
    then obtain s where sel: "selectMessage ins w1 = Done (s, w2)"
      and s: "(case s of Received m' \<Rightarrow> m = Some m' \<and> e = None
            | ReceivedNil \<Rightarrow> m = None \<and> e = incomingMessagesError w2
            | TimerFired \<Rightarrow> m = None \<and> e = Some (Timeout (id' w2)))"
      by (auto simp: waitMessage_Done)
    from selectMessage_frame [OF sel] e1 have e2: "eventChan w2 = eventChan w" by simp
    show ?thesis
    proof (cases "\<exists>msg. s = Received msg \<and> EventType msg = ''start_sync'' \<and> \<not> Error msg
                     \<and> ToUpper (Message msg) = ''OK''")
      case True
      then obtain msg where msg: "s = Received msg" "EventType msg = ''start_sync''" "\<not> Error msg"
        "ToUpper (Message msg) = ''OK''" by blast
      with s have me: "m = Some msg" "e = None" by simp_all
      with assms free send None wait msg obtain w3 where
        "stopSync (w2\<lparr>state := Syncing\<rparr>) = Done w3" "0 \<le> n"
        "r = (Some (length (eventChans w3)), None)"
        "w' = w3\<lparr>eventChans := eventChans w3 @ [\<lparr>sent = [], room = nat n, closed = False\<rparr>],
                        eventChan := Some (length (eventChans w3)), statusMutex := Free\<rparr>"
        by (auto simp: StartSync_def Lock_def Unlock_def thenDo_Done Let_def split: if_splits)
      with send None sel msg show ?thesis by auto
    next
      case False
      have "fst r = None \<and> w' = Unlock w2"
      proof (cases s)
        case (Received msg)
        with s have "m = Some msg" "e = None" by simp_all
        with assms free send None wait False Received show ?thesis
          by (auto simp: StartSync_def Lock_def split: if_splits)
      next
        case ReceivedNil
        with s have me: "m = None" by simp
        show ?thesis
        proof (cases e)
          case Nn: None
          with assms free send None wait me show ?thesis
            by (simp add: StartSync_def Lock_def)
        next
          case (Some er)
          with assms free send None wait me show ?thesis
            by (auto simp: StartSync_def Lock_def)
        qed
      next
        case TimerFired
        with s have "m = None" "e = Some (Timeout (id' w2))" by simp_all
        with assms free send None wait show ?thesis
          by (auto simp: StartSync_def Lock_def)
      qed
      with e2 show ?thesis by (simp add: Unlock_def)
    qed
  qed
qed


lemma flush_after_roundTrip:
  assumes send: "sendCommand command w0 = Done (err, w1)"
    and sel: "selectMessage ins w1 = Done (s, w2)"
    and same: "eventChan w2x = eventChan w2" "eventChans w2x = eventChans w2" "id' w2x = id' w2"
    and ss: "stopSync w2x = Done w3"
    and h: "eventChan w0 = Some h"
  shows "h < length (eventChans w3) \<and> closed (eventChans w3 ! h) \<and> eventChan w3 = None
       \<and> (\<exists>evs. sent (eventChans w3 ! h)
                  = sent (eventChans w0 ! h) @ evs @ [Event ''stop'' None (id' w0)]
                \<and> onlyPortEvents evs)"
proof -
  from roundTrip_frame [OF send sel] h have f: "id' w2 = id' w0" "eventChan w2 = Some h"
    and ev: "\<exists>evs. sent (eventChans w2 ! h) = sent (eventChans w0 ! h) @ evs \<and> onlyPortEvents evs"
    by auto
  from ev obtain evs where evs: "sent (eventChans w2 ! h) = sent (eventChans w0 ! h) @ evs"
    "onlyPortEvents evs" by blast
  from stopSync_Done [OF ss] same f
  have w3: "h < length (eventChans w2)"
    "w3 = w2x\<lparr>eventChans := (eventChans w2)[h := (eventChans w2 ! h)
                       \<lparr>sent := sent (eventChans w2 ! h) @ [Event ''stop'' None (id' w0)],
                        room := room (eventChans w2 ! h) - 1, closed := True\<rparr>],
                    eventChan := None\<rparr>"
    by auto
  with evs show ?thesis by auto
qed

lemma killProcess_no_channel:
  assumes "killProcess w = Done (r, w')" and "eventChan w = None"
  shows "eventChan w' = None \<and> eventChans w' = eventChans w"
  using assms
  by (auto simp: killProcess_def killProcessLocked_def Lock_def Unlock_def stopSync_def Let_def
                 thenDo_Done split: option.splits if_splits)

lemma runDecodeLoop_events:
  assumes "runDecodeLoop ins w = Done w'"
  shows "eventChan w' = eventChan w \<and> id' w' = id' w
       \<and> (\<forall>k. \<exists>evs. sent (eventChans w' ! k) = sent (eventChans w ! k) @ evs \<and> onlyPortEvents evs)"
  using runDecodeLoop_Done [OF assms]
proof (elim disjE exE conjE)
  assume "w' = w\<lparr>stdout := stdout w @ ins\<rparr>"
  then show ?thesis by (simp add: onlyPortEvents_def)
next
  fix h rest w1
  assume loop: "jsonDecodeLoop (stdout w @ ins) h w = Done (rest, w1)" and "w' = w1\<lparr>stdout := rest\<rparr>"
  with jsonDecodeLoop_events [OF loop] jsonDecodeLoop_frame [OF loop] show ?thesis by simp
qed

text \<open>
  Claim C5, as the code has it. Whenever a call of \<open>Stop\<close> or \<open>StartSync\<close> returns with
  another event channel registered than before, or with none, and whenever \<open>Quit\<close>
  returns, the channel \<open>h\<close> that was registered has received, after "add" and "remove"
  events only, exactly one more event, the synthetic "stop" event, as its last, and is
  closed. Of two successful calls of \<open>StartSync\<close>, with the decode loop running in
  between, the second returns another channel than the first; after it the first
  channel holds "add" and "remove" events followed by the one "stop" event and is
  closed, while the second is registered, open and still empty.
\<close>

theorem replaced_channel_is_flushed:
  "(\<forall>r w' h. Stop ins w = Done (r, w') \<and> eventChan w = Some h \<and> eventChan w' \<noteq> Some h
       \<longrightarrow> eventChan w' = None \<and> closed (eventChans w' ! h)
         \<and> (\<exists>evs. sent (eventChans w' ! h)
                      = sent (eventChans w ! h) @ evs @ [Event ''stop'' None (id' w)]
                  \<and> onlyPortEvents evs))
   \<and> (\<forall>r w' h. StartSync n ins w = Done (r, w') \<and> eventChan w = Some h \<and> eventChan w' \<noteq> Some h
       \<longrightarrow> closed (eventChans w' ! h)
         \<and> (\<exists>evs. sent (eventChans w' ! h)
                      = sent (eventChans w ! h) @ evs @ [Event ''stop'' None (id' w)]
                  \<and> onlyPortEvents evs))
   \<and> (\<forall>w' h. Quit ins w = Done w' \<and> eventChan w = Some h
       \<longrightarrow> eventChan w' = None \<and> closed (eventChans w' ! h)
         \<and> (\<exists>evs. sent (eventChans w' ! h)
                      = sent (eventChans w ! h) @ evs @ [Event ''stop'' None (id' w)]
                  \<and> onlyPortEvents evs))
   \<and> (\<forall>c1 c2 w1 w1' w2 between n2 ins2.
         StartSync n ins w = Done ((Some c1, None), w1)
       \<and> runDecodeLoop between w1 = Done w1'
       \<and> StartSync n2 ins2 w1' = Done ((Some c2, None), w2)
       \<longrightarrow> c1 \<noteq> c2 \<and> closed (eventChans w2 ! c1)
         \<and> (\<exists>evs. sent (eventChans w2 ! c1) = evs @ [Event ''stop'' None (id' w)]
                  \<and> onlyPortEvents evs)
         \<and> eventChan w2 = Some c2 \<and> sent (eventChans w2 ! c2) = []
         \<and> \<not> closed (eventChans w2 ! c2))"
proof (intro conjI; intro allI impI)
  fix r w' h
  assume a: "Stop ins w = Done (r, w') \<and> eventChan w = Some h \<and> eventChan w' \<noteq> Some h"
  then have S: "Stop ins w = Done (r, w')" and h: "eventChan w = Some h"
    and ne: "eventChan w' \<noteq> Some h" by simp_all
  from Stop_Done [OF S]
  show "eventChan w' = None \<and> closed (eventChans w' ! h)
         \<and> (\<exists>evs. sent (eventChans w' ! h)
                      = sent (eventChans w ! h) @ evs @ [Event ''stop'' None (id' w)]
                  \<and> onlyPortEvents evs)"
  proof (elim disjE exE conjE)
    fix e assume "sendCommand (''STOP'' @ [CHR 0x0A]) w = Done (Some e, w')"
    from sendCommand_frame [OF this] h ne show ?thesis by simp
  next
    fix w1 s e
    assume "sendCommand (''STOP'' @ [CHR 0x0A]) w = Done (None, w1)"
      "selectMessage ins w1 = Done (s, w')"
    from roundTrip_frame [OF this] h ne show ?thesis by simp
  next
    fix w1 msg w2 w3
    assume send: "sendCommand (''STOP'' @ [CHR 0x0A]) w = Done (None, w1)"
      and sel: "selectMessage ins w1 = Done (Received msg, w2)"
      and ss: "stopSync (w2\<lparr>statusMutex := Caller\<rparr>) = Done w3"
      and w': "w' = w3\<lparr>state := Idling, statusMutex := Free\<rparr>"
    from flush_after_roundTrip [OF send sel _ _ _ ss h] w' show ?thesis by simp
  qed
next
  fix r w' h
  assume a: "StartSync n ins w = Done (r, w') \<and> eventChan w = Some h \<and> eventChan w' \<noteq> Some h"
  then have S: "StartSync n ins w = Done (r, w')" and h: "eventChan w = Some h"
    and ne: "eventChan w' \<noteq> Some h" by simp_all
  from StartSync_Done [OF S]
  show "closed (eventChans w' ! h)
         \<and> (\<exists>evs. sent (eventChans w' ! h)
                      = sent (eventChans w ! h) @ evs @ [Event ''stop'' None (id' w)]
                  \<and> onlyPortEvents evs)"
  proof (elim disjE exE conjE)
    assume "eventChan w' = eventChan w"
    with h ne show ?thesis by simp
  next
    fix w1 msg w2 w3
    assume send: "sendCommand (''START_SYNC'' @ [CHR 0x0A]) (w\<lparr>statusMutex := Caller\<rparr>) = Done (None, w1)"
      and sel: "selectMessage ins w1 = Done (Received msg, w2)"
      and ss: "stopSync (w2\<lparr>state := Syncing\<rparr>) = Done w3"
      and w': "w' = w3\<lparr>eventChans := eventChans w3 @ [\<lparr>sent = [], room = nat n, closed = False\<rparr>],
                        eventChan := Some (length (eventChans w3)), statusMutex := Free\<rparr>"
    from flush_after_roundTrip [OF send sel _ _ _ ss, of h] h w' show ?thesis
      by (simp add: nth_append)
  qed
next
  fix w' h
  assume a: "Quit ins w = Done w' \<and> eventChan w = Some h"
  then have Q: "Quit ins w = Done w'" and h: "eventChan w = Some h" by simp_all
  from Q obtain e w1 r w2 w3 kr where send: "sendCommand (''QUIT'' @ [CHR 0x0A]) w = Done (e, w1)"
    and wait: "waitMessage ins w1 = Done (r, w2)" and ss: "stopSync w2 = Done w3"
    and kp: "killProcess w3 = Done (kr, w')"
    by (auto simp: Quit_def thenDo_Done)
  obtain m er where "r = (m, er)" by (cases r)
  with wait obtain s where sel: "selectMessage ins w1 = Done (s, w2)"
    by (auto simp: waitMessage_Done)
  from flush_after_roundTrip [OF send sel refl refl refl ss h]
  have f: "h < length (eventChans w3)" "closed (eventChans w3 ! h)" "eventChan w3 = None"
    "\<exists>evs. sent (eventChans w3 ! h)
                  = sent (eventChans w ! h) @ evs @ [Event ''stop'' None (id' w)]
                \<and> onlyPortEvents evs"
    by simp_all
  from killProcess_no_channel [OF kp f(3)] f
  show "eventChan w' = None \<and> closed (eventChans w' ! h)
         \<and> (\<exists>evs. sent (eventChans w' ! h)
                      = sent (eventChans w ! h) @ evs @ [Event ''stop'' None (id' w)]
                  \<and> onlyPortEvents evs)"
    by simp
next
  fix c1 c2 w1 w1' w2 between n2 ins2
  assume a: "StartSync n ins w = Done ((Some c1, None), w1)
       \<and> runDecodeLoop between w1 = Done w1'
       \<and> StartSync n2 ins2 w1' = Done ((Some c2, None), w2)"
  then have S1: "StartSync n ins w = Done ((Some c1, None), w1)"
    and R: "runDecodeLoop between w1 = Done w1'"
    and S2: "StartSync n2 ins2 w1' = Done ((Some c2, None), w2)" by simp_all
  from StartSync_Done [OF S1] obtain wa msg wb wc where
    s1: "sendCommand (''START_SYNC'' @ [CHR 0x0A]) (w\<lparr>statusMutex := Caller\<rparr>) = Done (None, wa)"
      "selectMessage ins wa = Done (Received msg, wb)"
    and c1: "c1 = length (eventChans wc)"
    and w1: "w1 = wc\<lparr>eventChans := eventChans wc @ [\<lparr>sent = [], room = nat n, closed = False\<rparr>],
                        eventChan := Some (length (eventChans wc)), statusMutex := Free\<rparr>"
    and ssa: "stopSync (wb\<lparr>state := Syncing\<rparr>) = Done wc"
    by auto
  from roundTrip_frame [OF s1] have "id' wb = id' w" by simp
  moreover from stopSync_Done [OF ssa] have "id' wc = id' wb" by auto
  ultimately have id1: "id' w1 = id' w" using w1 by simp
  from w1 c1 have e1: "eventChan w1 = Some c1" "sent (eventChans w1 ! c1) = []" by simp_all
  from runDecodeLoop_events [OF R] have rr: "eventChan w1' = eventChan w1" "id' w1' = id' w1"
    and all: "\<forall>k. \<exists>evs. sent (eventChans w1' ! k) = sent (eventChans w1 ! k) @ evs \<and> onlyPortEvents evs"
    by blast+
  from all obtain evs where
    ev: "sent (eventChans w1' ! c1) = sent (eventChans w1 ! c1) @ evs" "onlyPortEvents evs"
    by blast
  from rr ev e1 id1 have
    e1': "eventChan w1' = Some c1" "id' w1' = id' w"
    "sent (eventChans w1' ! c1) = evs" "onlyPortEvents evs"
    by simp_all
  from StartSync_Done [OF S2] obtain wa' msg' wb' wc' where
    s2: "sendCommand (''START_SYNC'' @ [CHR 0x0A]) (w1'\<lparr>statusMutex := Caller\<rparr>) = Done (None, wa')"
      "selectMessage ins2 wa' = Done (Received msg', wb')"
    and c2: "c2 = length (eventChans wc')"
    and w2: "w2 = wc'\<lparr>eventChans := eventChans wc' @ [\<lparr>sent = [], room = nat n2, closed = False\<rparr>],
                        eventChan := Some (length (eventChans wc')), statusMutex := Free\<rparr>"
    and ssb: "stopSync (wb'\<lparr>state := Syncing\<rparr>) = Done wc'"
    by auto
  from flush_after_roundTrip [OF s2 _ _ _ ssb, of c1] e1'
  have f: "c1 < length (eventChans wc')" "closed (eventChans wc' ! c1)"
    "\<exists>evs'. sent (eventChans wc' ! c1) = evs @ evs' @ [Event ''stop'' None (id' w)]
                \<and> onlyPortEvents evs'"
    by simp_all
  from f(3) obtain evs' where evs': "sent (eventChans wc' ! c1) = evs @ evs' @ [Event ''stop'' None (id' w)]"
    "onlyPortEvents evs'" by blast
  from e1'(4) evs'(2) have "onlyPortEvents (evs @ evs')" by (simp add: onlyPortEvents_def)
  with evs'(1) have "\<exists>es. sent (eventChans wc' ! c1) = es @ [Event ''stop'' None (id' w)]
                  \<and> onlyPortEvents es"
    by (intro exI [of _ "evs @ evs'"]) simp
  with f c2 w2 show "c1 \<noteq> c2 \<and> closed (eventChans w2 ! c1)
         \<and> (\<exists>evs. sent (eventChans w2 ! c1) = evs @ [Event ''stop'' None (id' w)]
                  \<and> onlyPortEvents evs)
         \<and> eventChan w2 = Some c2 \<and> sent (eventChans w2 ! c2) = []
         \<and> \<not> closed (eventChans w2 ! c2)"
    by (simp add: nth_append)
qed


text \<open>
  From the idle example client: \<open>StartSync(2)\<close> returns channel 0; the decode loop
  delivers one "add" event on it; a second \<open>StartSync(2)\<close> returns channel 1, and
  channel 0 then holds the "add" event followed by the "stop" event and is closed.
\<close>

theorem replaced_channel_is_flushed_witness:
  "StartSync 2 [Value (okReply ''start_sync'')] idleClient = Done ((Some 0, None), syncingClient)
   \<and> runDecodeLoop [Value (portEvent ''add'' examplePort)] syncingClient
       = Done (syncingClient\<lparr>eventChans :=
                 [\<lparr>sent = [Event ''add'' (Some examplePort) ''serial-discovery''], room = 1,
                   closed = False\<rparr>]\<rparr>)
   \<and> StartSync 2 [Value (okReply ''start_sync'')]
         (syncingClient\<lparr>eventChans :=
                 [\<lparr>sent = [Event ''add'' (Some examplePort) ''serial-discovery''], room = 1,
                   closed = False\<rparr>]\<rparr>)
       = Done ((Some 1, None),
               (sentLine ''START_SYNC'' syncingClient)
                 \<lparr>eventChans :=
                    [\<lparr>sent = [Event ''add'' (Some examplePort) ''serial-discovery'',
                              Event ''stop'' None ''serial-discovery''],
                      room = 0, closed = True\<rparr>,
                     \<lparr>sent = [], room = 2, closed = False\<rparr>],
                  eventChan := Some 1\<rparr>)
   \<and> (\<exists>evs. [Event ''add'' (Some examplePort) ''serial-discovery'',
               Event ''stop'' None ''serial-discovery'']
              = evs @ [Event ''stop'' None ''serial-discovery'']
            \<and> onlyPortEvents evs)"
proof -
  let ?w1' = "syncingClient\<lparr>eventChans :=
                 [\<lparr>sent = [Event ''add'' (Some examplePort) ''serial-discovery''], room = 1,
                   closed = False\<rparr>]\<rparr>"
  let ?w2 = "(sentLine ''START_SYNC'' syncingClient)
                 \<lparr>eventChans :=
                    [\<lparr>sent = [Event ''add'' (Some examplePort) ''serial-discovery'',
                              Event ''stop'' None ''serial-discovery''],
                      room = 0, closed = True\<rparr>,
                     \<lparr>sent = [], room = 2, closed = False\<rparr>],
                  eventChan := Some 1\<rparr>"
  have a: "StartSync 2 [Value (okReply ''start_sync'')] idleClient = Done ((Some 0, None), syncingClient)"
    by (simp add: eval_defs)
  have b: "runDecodeLoop [Value (portEvent ''add'' examplePort)] syncingClient = Done ?w1'"
    by (simp add: eval_defs)
  have c: "StartSync 2 [Value (okReply ''start_sync'')] ?w1' = Done ((Some 1, None), ?w2)"
    by (simp add: eval_defs)
  have f: "id' idleClient = ''serial-discovery''"
    "sent (eventChans ?w2 ! 0) = [Event ''add'' (Some examplePort) ''serial-discovery'',
                              Event ''stop'' None ''serial-discovery'']"
    by (simp_all add: eval_defs)
  from replaced_channel_is_flushed [of "[Value (okReply ''start_sync'')]" idleClient 2,
         THEN conjunct2, THEN conjunct2, THEN conjunct2, rule_format,
         of 0 syncingClient "[Value (portEvent ''add'' examplePort)]" ?w1' 2
            "[Value (okReply ''start_sync'')]" 1 ?w2] a b c
  have "\<exists>evs. sent (eventChans ?w2 ! 0) = evs @ [Event ''stop'' None (id' idleClient)]
            \<and> onlyPortEvents evs"
    by blast
  with f have "\<exists>evs. [Event ''add'' (Some examplePort) ''serial-discovery'',
               Event ''stop'' None ''serial-discovery'']
              = evs @ [Event ''stop'' None ''serial-discovery'']
            \<and> onlyPortEvents evs"
    by simp
  with a b c show ?thesis by blast
qed

text \<open>
  The claim as stated fails where the client reaches \<open>Dead\<close> through the end of the
  decode loop: on the syncing example client, the end of the subprocess's output
  makes the state \<open>Dead\<close> while channel 0 stays registered, open and without a "stop"
  event, although the loop will deliver nothing on it any more.
\<close>

theorem decode_loop_end_abandons_channel:
  "map_option state (result (runDecodeLoop [EndOfStream] syncingClient)) = Some Dead
   \<and> map_option eventChan (result (runDecodeLoop [EndOfStream] syncingClient)) = Some (Some 0)
   \<and> map_option eventChans (result (runDecodeLoop [EndOfStream] syncingClient))
        = Some [\<lparr>sent = [], room = 2, closed = False\<rparr>]"
  by (simp add: eval_defs)

end
